theory Spec2Isabelle
  imports Complex_Main "HOL-Library.AList"
begin

section \<open>Python values shared by the worker's functions\<close>

text \<open>
  The exceptions of \<^verbatim>\<open>backend-worker/worker.py\<close> that the modelled functions can
  raise. A function that can raise returns \<open>py_error + 'a\<close>, with \<open>Inl\<close> the exception.
\<close>

datatype py_error =
  ZeroDivisionError | ValueError | AssertionError | KeyError | AttributeError
  | ExternalError

text \<open>
  A two-dimensional numpy array is the list of its rows. numpy arrays are rectangular:
  every row has the length of the first one.
\<close>

type_synonym 'a array2d = "'a list list"

definition shape0 :: "'a array2d \<Rightarrow> nat" where
  "shape0 a = length a"

definition shape1 :: "'a array2d \<Rightarrow> nat" where
  "shape1 a = (case a of [] \<Rightarrow> 0 | r # _ \<Rightarrow> length r)"

definition rectangular :: "'a array2d \<Rightarrow> bool" where
  "rectangular a = (\<forall>r \<in> set a. length r = shape1 a)"

text \<open>
  Python's slice \<^verbatim>\<open>xs[start:stop]\<close>: a negative index counts from the end, and both
  ends are clamped to the sequence.
\<close>

definition py_slice :: "'a list \<Rightarrow> int \<Rightarrow> int \<Rightarrow> 'a list" where
  "py_slice xs start stop =
     (let n = int (length xs);
          lo = (if start < 0 then max (start + n) 0 else min start n);
          hi = (if stop < 0 then max (stop + n) 0 else min stop n)
      in take (nat (hi - lo)) (drop (nat lo) xs))"

text \<open>
  \<^verbatim>\<open>numpy.tile(a, (y_repeats, x_repeats))\<close> on a two-dimensional array: every row
  repeated \<open>x_repeats\<close> times, the block of rows repeated \<open>y_repeats\<close> times. A negative
  repeat count raises ValueError.
\<close>

definition numpy_tile :: "'a array2d \<Rightarrow> int \<Rightarrow> int \<Rightarrow> py_error + 'a array2d" where
  "numpy_tile a y_repeats x_repeats =
     (if y_repeats < 0 \<or> x_repeats < 0 then Inl ValueError
      else Inr (concat (replicate (nat y_repeats)
                  (map (\<lambda>row. concat (replicate (nat x_repeats) row)) a))))"

section \<open>The wallpaper tiler (\<^verbatim>\<open>wallpaper_parcel\<close>, the body of the block loop)\<close>

text \<open>
  \<^verbatim>\<open>wallpaper_x = xoff % wallpaper_array.shape[1]\<close> and
  \<^verbatim>\<open>wallpaper_x_repeats = 1 + ((wallpaper_x+win_xsize) // wallpaper_array.shape[1])\<close>,
  the same for y. Python's \<^verbatim>\<open>%\<close> and \<^verbatim>\<open>//\<close> on integers round towards minus
  infinity, as \<open>mod\<close> and \<open>div\<close> on \<open>int\<close> do; a zero divisor raises.
\<close>

definition wallpaper_phase :: "int \<Rightarrow> nat \<Rightarrow> int" where
  "wallpaper_phase off period = off mod int period"

definition wallpaper_repeats :: "int \<Rightarrow> int \<Rightarrow> nat \<Rightarrow> int" where
  "wallpaper_repeats phase win_size period = 1 + (phase + win_size) div int period"

definition wallpaper_tiled ::
  "'a array2d \<Rightarrow> int \<Rightarrow> int \<Rightarrow> int \<Rightarrow> int \<Rightarrow> py_error + 'a array2d" where
  "wallpaper_tiled wallpaper_array xoff yoff win_xsize win_ysize =
     (if shape1 wallpaper_array = 0 then Inl ZeroDivisionError
      else if shape0 wallpaper_array = 0 then Inl ZeroDivisionError
      else
        let wallpaper_x = wallpaper_phase xoff (shape1 wallpaper_array);
            wallpaper_y = wallpaper_phase yoff (shape0 wallpaper_array);
            wallpaper_x_repeats =
              wallpaper_repeats wallpaper_x win_xsize (shape1 wallpaper_array);
            wallpaper_y_repeats =
              wallpaper_repeats wallpaper_y win_ysize (shape0 wallpaper_array)
        in case numpy_tile wallpaper_array wallpaper_y_repeats wallpaper_x_repeats of
             Inl e \<Rightarrow> Inl e
           | Inr tiled \<Rightarrow>
               Inr (map (\<lambda>row. py_slice row wallpaper_x (wallpaper_x + win_xsize))
                      (py_slice tiled wallpaper_y (wallpaper_y + win_ysize))))"


text \<open>
  What the pattern, repeated without end in both directions, holds in the window whose
  top-left pixel is at the absolute offset \<open>(xoff, yoff)\<close>: the value that the tiler is
  compared with.
\<close>

definition pattern_window :: "'a array2d \<Rightarrow> int \<Rightarrow> int \<Rightarrow> int \<Rightarrow> int \<Rightarrow> 'a array2d" where
  "pattern_window a xoff yoff win_xsize win_ysize =
     map (\<lambda>i. map (\<lambda>j. a ! nat ((yoff + int i) mod int (shape0 a))
                          ! nat ((xoff + int j) mod int (shape1 a)))
                [0..<nat win_xsize])
         [0..<nat win_ysize]"

text \<open>
  Concatenating the results of sub-windows, as \<^verbatim>\<open>numpy.concatenate\<close> does: along
  axis 1 (side by side) the arrays need the same number of rows, along axis 0 (one
  above the other) the same number of columns; an empty list of arrays raises ValueError.
\<close>

definition concatenate_axis1 :: "'a array2d \<Rightarrow> 'a array2d \<Rightarrow> py_error + 'a array2d" where
  "concatenate_axis1 a b =
     (if shape0 a \<noteq> shape0 b then Inl ValueError else Inr (map2 (@) a b))"

definition concatenate_axis0 :: "'a array2d \<Rightarrow> 'a array2d \<Rightarrow> py_error + 'a array2d" where
  "concatenate_axis0 a b =
     (if a \<noteq> [] \<and> b \<noteq> [] \<and> shape1 a \<noteq> shape1 b then Inl ValueError
      else Inr (a @ b))"

definition both_then ::
  "('a \<Rightarrow> 'b \<Rightarrow> py_error + 'c) \<Rightarrow> py_error + 'a \<Rightarrow> py_error + 'b \<Rightarrow> py_error + 'c" where
  "both_then f ra rb =
     (case ra of Inl e \<Rightarrow> Inl e
      | Inr a \<Rightarrow> (case rb of Inl e \<Rightarrow> Inl e | Inr b \<Rightarrow> f a b))"

text \<open>
  A window cut into a grid of blocks, as \<^verbatim>\<open>pygeoprocessing.iterblocks\<close> cuts a raster:
  columns of widths \<open>ws\<close> and rows of heights \<open>hs\<close>. Every block is tiled on its own from
  its absolute offset, and the blocks are put together again.
\<close>

fun tile_block_row ::
  "'a array2d \<Rightarrow> int \<Rightarrow> int \<Rightarrow> int list \<Rightarrow> int \<Rightarrow> py_error + 'a array2d" where
  "tile_block_row a xoff yoff [] win_ysize = Inl ValueError"
| "tile_block_row a xoff yoff [win_xsize] win_ysize =
     wallpaper_tiled a xoff yoff win_xsize win_ysize"
| "tile_block_row a xoff yoff (win_xsize # ws) win_ysize =
     both_then concatenate_axis1
       (wallpaper_tiled a xoff yoff win_xsize win_ysize)
       (tile_block_row a (xoff + win_xsize) yoff ws win_ysize)"

fun tile_blocks ::
  "'a array2d \<Rightarrow> int \<Rightarrow> int \<Rightarrow> int list \<Rightarrow> int list \<Rightarrow> py_error + 'a array2d" where
  "tile_blocks a xoff yoff ws [] = Inl ValueError"
| "tile_blocks a xoff yoff ws [win_ysize] = tile_block_row a xoff yoff ws win_ysize"
| "tile_blocks a xoff yoff ws (win_ysize # hs) =
     both_then concatenate_axis0
       (tile_block_row a xoff yoff ws win_ysize)
       (tile_blocks a xoff (yoff + win_ysize) ws hs)"

text \<open>
  The rest of the loop body: \<^verbatim>\<open>numpy.where(parcel_mask_array == 1, wallpaper_tiled,
  base_array)\<close> on arrays of the window's shape.
\<close>

definition numpy_where_eq1 :: "int array2d \<Rightarrow> 'a array2d \<Rightarrow> 'a array2d \<Rightarrow> 'a array2d" where
  "numpy_where_eq1 mask_array xs ys =
     map (\<lambda>(mrow, xrow, yrow). map (\<lambda>(m, x, y). if m = 1 then x else y)
                                     (zip mrow (zip xrow yrow)))
         (zip mask_array (zip xs ys))"

definition wallpaper_block ::
  "int array2d \<Rightarrow> int array2d \<Rightarrow> int array2d \<Rightarrow> int \<Rightarrow> int \<Rightarrow> py_error + int array2d" where
  "wallpaper_block wallpaper_array parcel_mask_array base_array xoff yoff =
     (case wallpaper_tiled wallpaper_array xoff yoff
             (int (shape1 base_array)) (int (shape0 base_array)) of
        Inl e \<Rightarrow> Inl e
      | Inr tiled \<Rightarrow> Inr (numpy_where_eq1 parcel_mask_array tiled base_array))"

section \<open>The extent of the new raster (\<^verbatim>\<open>_create_new_lulc\<close>)\<close>

text \<open>
  \<^verbatim>\<open>_create_new_lulc\<close> reads of the parcel its bounding box
  \<open>(minx, miny, maxx, maxy)\<close> and that of the buffered parcel. Coordinates are Python
  floats, taken as exact reals: the model is exact where the floating-point operations
  are (coordinates and pixel sizes that are small integers, as in the examples below), and
  an idealisation elsewhere.
\<close>

type_synonym bbox = "real \<times> real \<times> real \<times> real"

record geometry =
  geom_bounds :: bbox

text \<open>
  The base raster's grid (\<^verbatim>\<open>_LULC_RASTER_INFO\<close>): \<^verbatim>\<open>LULC_ORIGIN_X\<close>,
  \<^verbatim>\<open>LULC_ORIGIN_Y\<close>, \<^verbatim>\<open>PIXELSIZE_X\<close>, \<^verbatim>\<open>PIXELSIZE_Y\<close>.
\<close>

record lulc_grid =
  LULC_ORIGIN_X :: real
  LULC_ORIGIN_Y :: real
  PIXELSIZE_X :: real
  PIXELSIZE_Y :: real

definition LARGEST_SERVICESHED :: real where
  "LARGEST_SERVICESHED = 1600"

text \<open>
  \<^verbatim>\<open>shapely.wkt.loads(parcel_wkt_epsg3857)\<close> for a parcel that is a rectangle with
  sides parallel to the axes, \<^verbatim>\<open>POLYGON ((minx miny, maxx miny, maxx maxy, minx maxy,
  minx miny))\<close>: the parcel is given by its corners.
\<close>

definition loads_box_wkt :: "bbox \<Rightarrow> geometry" where
  "loads_box_wkt b = \<lparr>geom_bounds = b\<rparr>"

text \<open>
  \<^verbatim>\<open>geom.buffer(distance)\<close> of such a rectangle: every side moves outward by the
  distance and the corners are rounded inside the box of the moved sides, so the bounds
  grow by the distance on every side. (For a parcel whose extreme point is a vertex,
  shapely cuts the round corner into chords and the bounds grow by less; the lemmas on
  \<open>align_bounds\<close> below are about every box of buffered bounds, whatever parcel it
  comes from.)
\<close>

definition shapely_buffer :: "geometry \<Rightarrow> real \<Rightarrow> geometry" where
  "shapely_buffer g distance =
     (case geom_bounds g of (minx, miny, maxx, maxy) \<Rightarrow>
        g\<lparr>geom_bounds := (minx - distance, miny - distance, maxx + distance, maxy + distance)\<rparr>)"

text \<open>
  Python's \<^verbatim>\<open>x % y\<close> on floats, without the rounding: the remainder has the sign of
  \<open>y\<close>. A zero \<open>y\<close> raises ZeroDivisionError, which \<open>align_bounds\<close> checks before it
  takes a remainder.
\<close>

definition py_fmod :: "real \<Rightarrow> real \<Rightarrow> real" where
  "py_fmod x y = x - y * of_int \<lfloor>x / y\<rfloor>"

text \<open>Lines 340 to 343: the four edges are moved to the grid.\<close>

definition align_bounds :: "lulc_grid \<Rightarrow> bbox \<Rightarrow> py_error + bbox" where
  "align_bounds g b =
     (case b of (buf_minx, buf_miny, buf_maxx, buf_maxy) \<Rightarrow>
        if PIXELSIZE_X g = 0 \<or> PIXELSIZE_Y g = 0 then Inl ZeroDivisionError
        else Inr
          (buf_minx - \<bar>py_fmod (buf_minx - LULC_ORIGIN_X g) (PIXELSIZE_X g)\<bar>,
           buf_miny - \<bar>py_fmod (buf_miny - LULC_ORIGIN_Y g) (PIXELSIZE_Y g)\<bar>,
           buf_maxx + (PIXELSIZE_X g - \<bar>py_fmod (buf_maxx - LULC_ORIGIN_X g) (PIXELSIZE_X g)\<bar>),
           buf_maxy + (PIXELSIZE_Y g - \<bar>py_fmod (buf_maxy - LULC_ORIGIN_Y g) (PIXELSIZE_Y g)\<bar>)))"

text \<open>Lines 333 to 336: the parcel as loaded, buffered by the largest serviceshed.\<close>

definition buffered_parcel_geom :: "bbox \<Rightarrow> geometry" where
  "buffered_parcel_geom parcel_wkt_epsg3857 =
     shapely_buffer (loads_box_wkt parcel_wkt_epsg3857) LARGEST_SERVICESHED"

text \<open>The \<^verbatim>\<open>target_bb\<close> that \<^verbatim>\<open>_create_new_lulc\<close> hands to \<^verbatim>\<open>warp_raster\<close>.\<close>

definition create_new_lulc_target_bb :: "lulc_grid \<Rightarrow> bbox \<Rightarrow> py_error + bbox" where
  "create_new_lulc_target_bb g parcel_wkt_epsg3857 =
     align_bounds g (geom_bounds (buffered_parcel_geom parcel_wkt_epsg3857))"

text \<open>One box inside another, edge by edge.\<close>

definition bbox_contains :: "bbox \<Rightarrow> bbox \<Rightarrow> bool" where
  "bbox_contains outer inner =
     (case outer of (ominx, ominy, omaxx, omaxy) \<Rightarrow>
      case inner of (iminx, iminy, imaxx, imaxy) \<Rightarrow>
        ominx \<le> iminx \<and> ominy \<le> iminy \<and> imaxx \<le> omaxx \<and> imaxy \<le> omaxy)"

text \<open>
  A box whose four edges lie on whole multiples of the pixel size from the grid's
  origin.
\<close>

definition on_grid :: "real \<Rightarrow> real \<Rightarrow> real \<Rightarrow> bool" where
  "on_grid origin pixelsize x = (py_fmod (x - origin) pixelsize = 0)"

definition bbox_on_grid :: "lulc_grid \<Rightarrow> bbox \<Rightarrow> bool" where
  "bbox_on_grid g b =
     (case b of (minx, miny, maxx, maxy) \<Rightarrow>
        on_grid (LULC_ORIGIN_X g) (PIXELSIZE_X g) minx \<and>
        on_grid (LULC_ORIGIN_Y g) (PIXELSIZE_Y g) miny \<and>
        on_grid (LULC_ORIGIN_X g) (PIXELSIZE_X g) maxx \<and>
        on_grid (LULC_ORIGIN_Y g) (PIXELSIZE_Y g) maxy)"

section \<open>Filling a parcel (\<^verbatim>\<open>fill_parcel\<close>), pixel values\<close>

text \<open>
  A raster band is the array of its pixels. \<^verbatim>\<open>_create_new_lulc\<close> warps the base raster
  to the target box with the base raster's pixel size and nearest-neighbour resampling:
  \<open>base_window\<close> is what the base raster holds there. Unless
  \<^verbatim>\<open>include_pixel_values\<close> is set, the band is then filled with its nodata value, when
  it has one.
\<close>

definition create_new_lulc_pixels :: "int array2d \<Rightarrow> int option \<Rightarrow> bool \<Rightarrow> int array2d" where
  "create_new_lulc_pixels base_window nodata include_pixel_values =
     (if \<not> include_pixel_values then
        (case nodata of
           Some v \<Rightarrow> map (map (\<lambda>_. v)) base_window
         | None \<Rightarrow> base_window)
      else base_window)"

text \<open>
  \<^verbatim>\<open>pygeoprocessing.geoprocessing.rasterize(vector, raster, [burn], ALL_TOUCHED=TRUE)\<close>
  writes \<open>burn\<close> into every pixel that the polygon touches and leaves the others as they
  are. \<open>touched\<close> is the all-touched mask of the polygon on the raster's grid: 1 where the
  polygon touches the pixel, 0 elsewhere.
\<close>

definition rasterize_burn :: "int array2d \<Rightarrow> int \<Rightarrow> int array2d \<Rightarrow> int array2d" where
  "rasterize_burn touched burn raster =
     map (\<lambda>(mrow, vrow). map (\<lambda>(m, v). if m = 1 then burn else v) (zip mrow vrow))
         (zip touched raster)"

text \<open>
  Lines 394 to 398: \<^verbatim>\<open>_create_new_lulc(..., include_pixel_values=True)\<close>, then the
  parcel burnt in with \<open>fill_lulc_class\<close>.
\<close>

definition fill_parcel_pixels ::
  "int array2d \<Rightarrow> int option \<Rightarrow> int array2d \<Rightarrow> int \<Rightarrow> int array2d" where
  "fill_parcel_pixels base_window nodata touched fill_lulc_class =
     rasterize_burn touched fill_lulc_class
       (create_new_lulc_pixels base_window nodata True)"

definition count_pixels :: "int array2d \<Rightarrow> int \<Rightarrow> nat" where
  "count_pixels a v = count_list (concat a) v"

text \<open>
  The number of pixel positions \<open>(i, j)\<close>, row \<open>i\<close> below \<open>n_rows\<close> and column \<open>j\<close>
  below \<open>n_cols\<close>, at which \<open>P i j\<close> holds.
\<close>

definition pixels_where :: "nat \<Rightarrow> nat \<Rightarrow> (nat \<Rightarrow> nat \<Rightarrow> bool) \<Rightarrow> nat" where
  "pixels_where n_rows n_cols P =
     length (filter (\<lambda>(i, j). P i j) (List.product [0..<n_rows] [0..<n_cols]))"

section \<open>Pixel counts under a parcel (\<^verbatim>\<open>pixelcounts_under_parcel\<close>, lines 576 to 588)\<close>

text \<open>
  \<^verbatim>\<open>array[parcel_mask == 1]\<close>: the values of \<open>array\<close>, row by row, at the places where
  the mask is 1.
\<close>

definition boolean_index_eq1 :: "'a array2d \<Rightarrow> int array2d \<Rightarrow> 'a list" where
  "boolean_index_eq1 array parcel_mask =
     map fst (filter (\<lambda>(v, m). m = 1) (zip (concat array) (concat parcel_mask)))"

text \<open>
  \<^verbatim>\<open>numpy.unique(xs, return_counts=True)\<close>: the distinct values in ascending order, and
  how often each occurs.
\<close>

definition numpy_unique_counts :: "int list \<Rightarrow> int list \<times> nat list" where
  "numpy_unique_counts xs =
     (let values_sorted = sort (remdups xs)
      in (values_sorted, map (count_list xs) values_sorted))"

text \<open>
  A Python dict is an association list in insertion order; \<^verbatim>\<open>d[k] = v\<close> is
  \<^const>\<open>AList.update\<close>, which replaces the value of a key already there.
\<close>

definition array_shape :: "'a array2d \<Rightarrow> nat \<times> nat" where
  "array_shape a = (shape0 a, shape1 a)"

definition pixelcounts_under_parcel ::
  "int array2d \<Rightarrow> int array2d \<Rightarrow> py_error + (int \<times> nat) list" where
  "pixelcounts_under_parcel array parcel_mask =
     (if array_shape parcel_mask \<noteq> array_shape array then Inl AssertionError
      else
        case numpy_unique_counts (boolean_index_eq1 array parcel_mask) of
          (values_under_parcel, counts) \<Rightarrow>
            Inr (fold (\<lambda>(lulc_code, pixel_count) return_values.
                         AList.update lulc_code pixel_count return_values)
                      (zip values_under_parcel counts) []))"

section \<open>Working directories (\<^verbatim>\<open>fill_parcel\<close>, \<^verbatim>\<open>wallpaper_parcel\<close>)\<close>





text \<open>
  The geometry types of shapely, and the table \<^verbatim>\<open>OGR_GEOMETRY_TYPES\<close>, which knows two
  of them: \<^verbatim>\<open>OGR_GEOMETRY_TYPES[parcel_geom.type]\<close> raises KeyError for the others.
\<close>

datatype geom_type = Polygon | MultiPolygon | Point | LineString | GeometryCollection




section \<open>Reprojection (\<^verbatim>\<open>_reproject_to_nlud\<close>)\<close>

text \<open>
  The calls of OGR and shapely are parameters: \<open>create\<close> is
  \<^verbatim>\<open>ogr.CreateGeometryFromWkt\<close> (\<open>None\<close> for text it cannot read, and the method call
  on \<open>None\<close> raises AttributeError), \<open>transform\<close> is
  \<^verbatim>\<open>ogr_geom.Transform(WEB_MERCATOR_TO_ALBERS_EQ_AREA)\<close> with the error code it returns
  and the geometry afterwards, \<open>export\<close> is \<^verbatim>\<open>ExportToWkt\<close>, \<open>loads\<close> is
  \<^verbatim>\<open>shapely.wkt.loads\<close>. The result is the list of warnings logged and the value
  returned or the exception raised.
\<close>

record ('g, 's) ogr_calls =
  create :: "string \<Rightarrow> 'g option"
  transform :: "'g \<Rightarrow> int \<times> 'g"
  export :: "'g \<Rightarrow> string"
  loads :: "string \<Rightarrow> 's option"

definition reproject_to_nlud ::
  "('g, 's) ogr_calls \<Rightarrow> string \<Rightarrow> string list \<times> (py_error + 's)" where
  "reproject_to_nlud ogr parcel_wkt_epsg3857 =
     (case create ogr parcel_wkt_epsg3857 of
        None \<Rightarrow> ([], Inl AttributeError)
      | Some ogr_geom \<Rightarrow>
          (case transform ogr ogr_geom of (err_code, ogr_geom') \<Rightarrow>
             let warnings =
                   (if err_code \<noteq> 0
                    then [''Transformation failed on parcel; continuing with ''
                            @ parcel_wkt_epsg3857]
                    else [])
             in if export ogr ogr_geom' = parcel_wkt_epsg3857
                then (warnings, Inl AssertionError)
                else (case loads ogr (export ogr ogr_geom') of
                        None \<Rightarrow> (warnings, Inl ExternalError)
                      | Some parcel_geom \<Rightarrow> (warnings, Inr parcel_geom))))"

section \<open>The job loop (\<^verbatim>\<open>do_work\<close>, one job)\<close>

definition STATUS_SUCCESS :: string where "STATUS_SUCCESS = ''success''"
definition STATUS_FAILED :: string where "STATUS_FAILED = ''failed''"
definition JOBTYPE_FILL :: string where "JOBTYPE_FILL = ''lulc_fill''"
definition JOBTYPE_WALLPAPER :: string where "JOBTYPE_WALLPAPER = ''wallpaper''"
definition JOBTYPE_CROP :: string where "JOBTYPE_CROP = ''lulc_crop''"
definition JOBTYPE_PARCEL_STATS :: string where "JOBTYPE_PARCEL_STATS = ''stats_under_parcel''"
definition JOBTYPE_PATTERN_THUMBNAIL :: string where
  "JOBTYPE_PATTERN_THUMBNAIL = ''pattern_thumbnail''"
definition JOBTYPE_INVEST :: string where "JOBTYPE_INVEST = ''invest''"

definition ENDPOINTS :: "(string \<times> string) list" where
  "ENDPOINTS =
     [(JOBTYPE_FILL, ''scenario''),
      (JOBTYPE_WALLPAPER, ''scenario''),
      (JOBTYPE_CROP, ''scenario''),
      (JOBTYPE_PARCEL_STATS, ''parcel_stats''),
      (JOBTYPE_PATTERN_THUMBNAIL, ''pattern''),
      (JOBTYPE_INVEST, ''invest'')]"

text \<open>
  A fetched job: its type, and the two dicts \<^verbatim>\<open>server_attrs\<close> and \<^verbatim>\<open>job_args\<close>
  as association lists.
\<close>

record job =
  job_type :: string
  server_attrs :: "(string \<times> string) list"
  job_args :: "(string \<times> string) list"

definition CARBON :: string where "CARBON = ''carbon''"
definition URBAN_COOLING :: string where "URBAN_COOLING = ''urban_cooling_model''"
definition URBAN_NATURE_ACCESS :: string where "URBAN_NATURE_ACCESS = ''urban_nature_access''"

text \<open>The keys of \<^verbatim>\<open>INVEST_MODELS\<close>.\<close>

definition INVEST_MODELS :: "string list" where
  "INVEST_MODELS = [URBAN_COOLING, CARBON, URBAN_NATURE_ACCESS]"

text \<open>
  The operations a job can run: the calls out of \<^verbatim>\<open>do_work\<close> into the worker's
  functions, the standard library and the models. Each either raises or returns;
  \<open>fails\<close> gives the exception of the ones that raise.
\<close>

datatype operation =
  OpMakedirs | OpCreateNewLulc | OpFillParcel | OpMkdtemp | OpWallpaperParcel
  | OpPixelCounts | OpPrepareWorkspace | OpInvestBuildArgs | OpInvestExecute
  | OpInvestDeriveResults

text \<open>
  The steps of a branch of the \<^verbatim>\<open>try\<close> block, in the order Python evaluates them:
  a lookup \<^verbatim>\<open>server_args[k]\<close> or \<^verbatim>\<open>job_args[k]\<close>, which raises KeyError for a
  missing key, the lookup \<^verbatim>\<open>INVEST_MODELS[invest_model]\<close>, and the operations.
  \<open>run_steps\<close> runs them up to the first that raises, and returns the operations it
  started.
\<close>

datatype job_step =
  ServerAttr string | JobArg string | InvestModelEntry | Run operation

fun run_steps ::
  "(operation \<Rightarrow> py_error option) \<Rightarrow> job \<Rightarrow> job_step list \<Rightarrow> operation list \<times> py_error option" where
  "run_steps fails j [] = ([], None)"
| "run_steps fails j (ServerAttr k # rest) =
     (case map_of (server_attrs j) k of
        None \<Rightarrow> ([], Some KeyError)
      | Some _ \<Rightarrow> run_steps fails j rest)"
| "run_steps fails j (JobArg k # rest) =
     (case map_of (job_args j) k of
        None \<Rightarrow> ([], Some KeyError)
      | Some _ \<Rightarrow> run_steps fails j rest)"
| "run_steps fails j (InvestModelEntry # rest) =
     (case map_of (job_args j) ''invest_model'' of
        None \<Rightarrow> ([], Some KeyError)
      | Some invest_model \<Rightarrow>
          if invest_model \<in> set INVEST_MODELS then run_steps fails j rest
          else ([], Some KeyError))"
| "run_steps fails j (Run operation # rest) =
     (case fails operation of
        Some e \<Rightarrow> ([operation], Some e)
      | None \<Rightarrow> (case run_steps fails j rest of (started, r) \<Rightarrow> (operation # started, r)))"

datatype result_body =
  ScenarioResult | ParcelStatsResult | InvestResult | FailedResult

record payload =
  result :: result_body
  payload_server_attrs :: "(string \<times> string) list"
  status :: string

text \<open>
  The \<^verbatim>\<open>try\<close> block, lines 663 to 761: the steps of each job type, and the
  \<^verbatim>\<open>ValueError\<close> of the last \<^verbatim>\<open>else\<close>. The result is the list of operations started
  and the result body or the exception. (The \<^verbatim>\<open>shutil.rmtree\<close> after
  \<^verbatim>\<open>wallpaper_parcel\<close> has its OSError caught and logged on the spot, and is left
  out.)
\<close>

definition scenario_steps :: "job \<Rightarrow> job_step list" where
  "scenario_steps j =
     [ServerAttr ''scenario_id'', Run OpMakedirs]
     @ (if job_type j = JOBTYPE_CROP
        then [JobArg ''target_parcel_wkt'', Run OpCreateNewLulc] else [])
     @ (if job_type j = JOBTYPE_FILL
        then [JobArg ''target_parcel_wkt'', JobArg ''lulc_class'', Run OpFillParcel]
        else if job_type j = JOBTYPE_WALLPAPER
        then [Run OpMkdtemp, JobArg ''target_parcel_wkt'', JobArg ''pattern_bbox_wkt'',
              JobArg ''lulc_source_url'', Run OpWallpaperParcel]
        else [])
     @ [JobArg ''target_parcel_wkt'', Run OpPixelCounts]"

definition parcel_stats_steps :: "job_step list" where
  "parcel_stats_steps =
     [JobArg ''target_parcel_wkt'', JobArg ''lulc_source_url'', Run OpPixelCounts]"

definition invest_steps :: "job_step list" where
  "invest_steps =
     [JobArg ''invest_model'', JobArg ''scenario_id'', InvestModelEntry,
      JobArg ''lulc_source_url'', Run OpPrepareWorkspace, JobArg ''study_area_wkt'',
      Run OpInvestBuildArgs, Run OpInvestExecute, Run OpInvestDeriveResults]"

definition job_body ::
  "(operation \<Rightarrow> py_error option) \<Rightarrow> job \<Rightarrow> operation list \<times> (py_error + result_body)" where
  "job_body fails j =
     (if job_type j \<in> {JOBTYPE_FILL, JOBTYPE_WALLPAPER, JOBTYPE_CROP} then
        (case run_steps fails j (scenario_steps j) of
           (started, Some e) \<Rightarrow> (started, Inl e)
         | (started, None) \<Rightarrow> (started, Inr ScenarioResult))
      else if job_type j = JOBTYPE_PARCEL_STATS then
        (case run_steps fails j parcel_stats_steps of
           (started, Some e) \<Rightarrow> (started, Inl e)
         | (started, None) \<Rightarrow> (started, Inr ParcelStatsResult))
      else if job_type j = JOBTYPE_INVEST then
        (case run_steps fails j invest_steps of
           (started, Some e) \<Rightarrow> (started, Inl e)
         | (started, None) \<Rightarrow> (started, Inr InvestResult))
      else ([], Inl ValueError))"

text \<open>
  The \<^verbatim>\<open>except\<close> and \<^verbatim>\<open>finally\<close> clauses, lines 762 to 776: the payload, and the
  endpoint looked up in \<^verbatim>\<open>ENDPOINTS\<close> for the post. \<open>Inr\<close> is the post made (endpoint
  and payload); \<open>Inl\<close> is an exception that leaves the \<^verbatim>\<open>while\<close> loop.
\<close>

definition job_payload :: "job \<Rightarrow> py_error + result_body \<Rightarrow> payload" where
  "job_payload j r =
     (case r of
        Inr data \<Rightarrow>
          \<lparr>result = data, payload_server_attrs = server_attrs j, status = STATUS_SUCCESS\<rparr>
      | Inl error \<Rightarrow>
          \<lparr>result = FailedResult, payload_server_attrs = server_attrs j,
           status = STATUS_FAILED\<rparr>)"

definition process_job ::
  "(operation \<Rightarrow> py_error option) \<Rightarrow> job \<Rightarrow> operation list \<times> (py_error + string \<times> payload)" where
  "process_job fails j =
     (case job_body fails j of (started, r) \<Rightarrow>
        (case map_of ENDPOINTS (job_type j) of
           None \<Rightarrow> (started, Inl KeyError)
         | Some endpoint \<Rightarrow> (started, Inr (endpoint, job_payload j r))))"

section \<open>Proofs: the wallpaper tiler\<close>

subsection \<open>Repeating a list and cutting a window out of it\<close>


lemma length_concat_replicate: "length (concat (replicate n xs)) = n * length xs"
  by (induction n) auto

lemma nth_concat_replicate:
  "k < n * length xs \<Longrightarrow> concat (replicate n xs) ! k = xs ! (k mod length xs)"
proof (induction n arbitrary: k)
  case 0 then show ?case by simp
next
  case (Suc n)
  show ?case
  proof (cases "k < length xs")
    case True then show ?thesis by (simp add: nth_append)
  next
    case False
    then have "k - length xs < n * length xs" using Suc.prems by simp
    from Suc.IH[OF this] False show ?thesis
      by (simp add: nth_append le_mod_geq)
  qed
qed

lemma take_drop_eq_map_nth:
  "d + m \<le> length ys \<Longrightarrow> take m (drop d ys) = map (\<lambda>i. ys ! (d + i)) [0..<m]"
  by (rule nth_equalityI) auto

lemma py_slice_in_bounds:
  assumes "0 \<le> s" "0 \<le> w" "s + w \<le> int (length xs)"
  shows "py_slice xs s (s + w) = take (nat w) (drop (nat s) xs)"
  using assms by (simp add: py_slice_def Let_def min_def)

lemma repeats_cover:
  assumes "0 < L"
  shows "p + w < int L * wallpaper_repeats p w L"
proof -
  have "(p + w) mod int L < int L" using assms by simp
  moreover have "int L * ((p + w) div int L) + (p + w) mod int L = p + w"
    by (rule mult_div_mod_eq)
  ultimately have "p + w < int L * ((p + w) div int L) + int L" by linarith
  then show ?thesis
    by (simp add: wallpaper_repeats_def algebra_simps)
qed

lemma phase_range:
  assumes "0 < L"
  shows "0 \<le> wallpaper_phase off L" "wallpaper_phase off L < int L"
  using assms by (simp_all add: wallpaper_phase_def)

lemma repeats_nonneg:
  assumes "0 < L" "0 \<le> p" "0 \<le> w"
  shows "0 < wallpaper_repeats p w L"
proof -
  have "0 \<le> (p + w) div int L" using assms by (simp add: pos_imp_zdiv_nonneg_iff)
  then show ?thesis by (simp add: wallpaper_repeats_def)
qed

lemma tiled_slice_1d:
  fixes off :: int
  assumes L: "0 < length xs" and w: "0 \<le> w"
  shows "py_slice (concat (replicate (nat (wallpaper_repeats (wallpaper_phase off (length xs)) w (length xs))) xs))
           (wallpaper_phase off (length xs)) (wallpaper_phase off (length xs) + w) =
         map (\<lambda>j. xs ! nat ((off + int j) mod int (length xs))) [0..<nat w]"
proof -
  define p where "p = wallpaper_phase off (length xs)"
  define reps where "reps = wallpaper_repeats p w (length xs)"
  have p0: "0 \<le> p" and pL: "p < int (length xs)"
    using phase_range[OF L] by (simp_all add: p_def)
  have r0: "0 < reps" using repeats_nonneg[OF L p0 w] by (simp add: reps_def)
  have cover: "p + w < int (length xs) * reps"
    using repeats_cover[OF L] by (simp add: reps_def)
  have len: "int (length (concat (replicate (nat reps) xs))) = int (length xs) * reps"
    using r0 by (simp add: length_concat_replicate mult.commute)
  have bound: "nat p + nat w \<le> length (concat (replicate (nat reps) xs))"
    using cover len p0 w by linarith
  have "py_slice (concat (replicate (nat reps) xs)) p (p + w) =
        take (nat w) (drop (nat p) (concat (replicate (nat reps) xs)))"
    using cover len by (intro py_slice_in_bounds[OF p0 w]) simp
  also have "\<dots> = map (\<lambda>i. concat (replicate (nat reps) xs) ! (nat p + i)) [0..<nat w]"
    by (rule take_drop_eq_map_nth[OF bound])
  also have "\<dots> = map (\<lambda>j. xs ! nat ((off + int j) mod int (length xs))) [0..<nat w]"
  proof (rule map_cong[OF refl])
    fix j assume "j \<in> set [0..<nat w]"
    then have j: "j < nat w" by simp
    then have lt: "nat p + j < nat reps * length xs"
      using bound by (simp add: length_concat_replicate)
    have "(nat p + j) mod length xs = nat ((off + int j) mod int (length xs))"
    proof -
      have "int ((nat p + j) mod length xs) = (p + int j) mod int (length xs)"
        using p0 by (simp add: zmod_int)
      also have "\<dots> = (off + int j) mod int (length xs)"
        by (simp add: p_def wallpaper_phase_def mod_add_left_eq)
      finally show ?thesis by simp
    qed
    with nth_concat_replicate[OF lt]
    show "concat (replicate (nat reps) xs) ! (nat p + j) =
          xs ! nat ((off + int j) mod int (length xs))" by simp
  qed
  finally show ?thesis by (simp add: p_def reps_def)
qed



lemma rectangular_row:
  assumes "rectangular a" "k < shape0 a"
  shows "length (a ! k) = shape1 a"
  using assms by (simp add: rectangular_def shape0_def)

lemma wallpaper_tiled_eq:
  assumes rect: "rectangular a" and H: "0 < shape0 a" and W: "0 < shape1 a"
    and w: "0 \<le> win_xsize" and h: "0 \<le> win_ysize"
  shows "wallpaper_tiled a xoff yoff win_xsize win_ysize =
         Inr (pattern_window a xoff yoff win_xsize win_ysize)"
proof -
  define px where "px = wallpaper_phase xoff (shape1 a)"
  define py where "py = wallpaper_phase yoff (shape0 a)"
  define rx where "rx = wallpaper_repeats px win_xsize (shape1 a)"
  define ry where "ry = wallpaper_repeats py win_ysize (shape0 a)"
  define rows where "rows = map (\<lambda>row. concat (replicate (nat rx) row)) a"
  have px0: "0 \<le> px" and py0: "0 \<le> py"
    using phase_range(1)[OF W] phase_range(1)[OF H] by (simp_all add: px_def py_def)
  have rx0: "0 < rx" and ry0: "0 < ry"
    using repeats_nonneg[OF W px0 w] repeats_nonneg[OF H py0 h]
    by (simp_all add: rx_def ry_def)
  have len_rows: "length rows = shape0 a" by (simp add: rows_def shape0_def)
  have tile: "numpy_tile a ry rx = Inr (concat (replicate (nat ry) rows))"
    using rx0 ry0 by (simp add: numpy_tile_def rows_def)
  have vert: "py_slice (concat (replicate (nat ry) rows)) py (py + win_ysize) =
              map (\<lambda>i. rows ! nat ((yoff + int i) mod int (shape0 a))) [0..<nat win_ysize]"
    using tiled_slice_1d[of rows win_ysize yoff] H h
    by (simp add: len_rows py_def ry_def)
  have row: "py_slice (rows ! nat ((yoff + int i) mod int (shape0 a))) px (px + win_xsize) =
             map (\<lambda>j. a ! nat ((yoff + int i) mod int (shape0 a))
                        ! nat ((xoff + int j) mod int (shape1 a))) [0..<nat win_xsize]" for i
  proof -
    define k where "k = nat ((yoff + int i) mod int (shape0 a))"
    have k: "k < shape0 a" using H by (simp add: k_def nat_less_iff)
    have lk: "length (a ! k) = shape1 a" by (rule rectangular_row[OF rect k])
    have "rows ! k = concat (replicate (nat rx) (a ! k))"
      using k by (simp add: rows_def shape0_def)
    moreover have "py_slice (concat (replicate (nat rx) (a ! k))) px (px + win_xsize) =
        map (\<lambda>j. a ! k ! nat ((xoff + int j) mod int (shape1 a))) [0..<nat win_xsize]"
      using tiled_slice_1d[of "a ! k" win_xsize xoff] W w
      unfolding lk px_def rx_def by simp
    ultimately show ?thesis unfolding k_def by simp
  qed
  have "wallpaper_tiled a xoff yoff win_xsize win_ysize =
        Inr (map (\<lambda>r. py_slice r px (px + win_xsize))
               (py_slice (concat (replicate (nat ry) rows)) py (py + win_ysize)))"
    using H W tile by (simp add: wallpaper_tiled_def Let_def px_def py_def rx_def ry_def)
  also have "\<dots> = Inr (pattern_window a xoff yoff win_xsize win_ysize)"
    by (simp add: vert row pattern_window_def comp_def)
  finally show ?thesis .
qed



lemma upt_split_shift: "[0..<m + n] = [0..<m] @ map (\<lambda>i. m + i) [0..<n]"
  by (induction n) (simp_all add: add.assoc[symmetric] del: upt_Suc, simp)

lemma pattern_window_vsplit:
  assumes "0 \<le> h1" "0 \<le> h2"
  shows "pattern_window a xoff yoff w h1 @ pattern_window a xoff (yoff + h1) w h2 =
         pattern_window a xoff yoff w (h1 + h2)"
proof -
  have rows: "[0..<nat (h1 + h2)] = [0..<nat h1] @ map (\<lambda>i. nat h1 + i) [0..<nat h2]"
    using assms by (simp add: nat_add_distrib upt_split_shift)
  have shift: "yoff + h1 + int i = yoff + int (nat h1 + i)" for i
    using assms by simp
  show ?thesis
    unfolding pattern_window_def rows shift
    by (simp add: comp_def)
qed

lemma pattern_window_hsplit:
  assumes "0 \<le> w1" "0 \<le> w2"
  shows "map2 (@) (pattern_window a xoff yoff w1 h) (pattern_window a (xoff + w1) yoff w2 h) =
         pattern_window a xoff yoff (w1 + w2) h"
proof -
  have cols: "[0..<nat (w1 + w2)] = [0..<nat w1] @ map (\<lambda>j. nat w1 + j) [0..<nat w2]"
    using assms by (simp add: nat_add_distrib upt_split_shift)
  have shift: "xoff + w1 + int j = xoff + int (nat w1 + j)" for j
    using assms by simp
  have zip_same: "map2 (@) (map f xs) (map g xs) = map (\<lambda>x. f x @ g x) xs"
    for f g :: "nat \<Rightarrow> 'a list" and xs
    by (induction xs) auto
  show ?thesis
    unfolding pattern_window_def cols shift zip_same
    by (simp add: comp_def)
qed

lemma shape0_pattern_window: "shape0 (pattern_window a xoff yoff w h) = nat h"
  by (simp add: pattern_window_def shape0_def)

lemma shape1_pattern_window: "0 < h \<Longrightarrow> shape1 (pattern_window a xoff yoff w h) = nat w"
  by (simp add: pattern_window_def shape1_def upt_conv_Cons split: list.splits)


subsection \<open>Blocks put together\<close>

lemma sum_list_nonneg_int: "\<forall>w \<in> set ws. (0::int) \<le> w \<Longrightarrow> 0 \<le> sum_list ws"
  by (induction ws) auto

lemma tile_block_row_eq:
  assumes rect: "rectangular a" and H: "0 < shape0 a" and W: "0 < shape1 a"
    and h: "0 \<le> win_ysize"
  shows "ws \<noteq> [] \<Longrightarrow> \<forall>w \<in> set ws. 0 \<le> w \<Longrightarrow>
         tile_block_row a xoff yoff ws win_ysize =
         Inr (pattern_window a xoff yoff (sum_list ws) win_ysize)"
proof (induction ws arbitrary: xoff rule: list_nonempty_induct)
  case (single w)
  then show ?case by (simp add: wallpaper_tiled_eq[OF rect H W _ h])
next
  case (cons w ws)
  then have w: "0 \<le> w" and rest: "\<forall>w \<in> set ws. 0 \<le> w" by simp_all
  obtain v vs where ws: "ws = v # vs" using cons.hyps by (cases ws) auto
  have "tile_block_row a xoff yoff (w # ws) win_ysize =
        both_then concatenate_axis1
          (Inr (pattern_window a xoff yoff w win_ysize))
          (Inr (pattern_window a (xoff + w) yoff (sum_list ws) win_ysize))"
    using cons.IH[OF rest, of "xoff + w"] wallpaper_tiled_eq[OF rect H W w h, of xoff yoff]
    by (simp add: ws)
  also have "\<dots> = Inr (pattern_window a xoff yoff (w + sum_list ws) win_ysize)"
    using pattern_window_hsplit[OF w sum_list_nonneg_int[OF rest]]
    by (simp add: both_then_def concatenate_axis1_def shape0_pattern_window)
  finally show ?case by simp
qed

lemma tile_blocks_eq:
  assumes rect: "rectangular a" and H: "0 < shape0 a" and W: "0 < shape1 a"
    and ws: "ws \<noteq> []" "\<forall>w \<in> set ws. 0 \<le> w"
  shows "hs \<noteq> [] \<Longrightarrow> \<forall>h \<in> set hs. 0 \<le> h \<Longrightarrow>
         tile_blocks a xoff yoff ws hs =
         Inr (pattern_window a xoff yoff (sum_list ws) (sum_list hs))"
proof (induction hs arbitrary: yoff rule: list_nonempty_induct)
  case (single h)
  then show ?case by (simp add: tile_block_row_eq[OF rect H W _ ws])
next
  case (cons h hs)
  then have h: "0 \<le> h" and rest: "\<forall>h \<in> set hs. 0 \<le> h" by simp_all
  obtain v vs where hs: "hs = v # vs" using cons.hyps by (cases hs) auto
  have "tile_blocks a xoff yoff ws (h # hs) =
        both_then concatenate_axis0
          (Inr (pattern_window a xoff yoff (sum_list ws) h))
          (Inr (pattern_window a xoff (yoff + h) (sum_list ws) (sum_list hs)))"
    using cons.IH[OF rest, of "yoff + h"] tile_block_row_eq[OF rect H W h ws, of xoff yoff]
    by (simp add: hs)
  also have "\<dots> = Inr (pattern_window a xoff yoff (sum_list ws) (h + sum_list hs))"
  proof -
    define top where "top = pattern_window a xoff yoff (sum_list ws) h"
    define bot where "bot = pattern_window a xoff (yoff + h) (sum_list ws) (sum_list hs)"
    have "shape1 top = shape1 bot" if "top \<noteq> []" "bot \<noteq> []"
    proof -
      from that have "0 < h" "0 < sum_list hs"
        by (auto simp: top_def bot_def pattern_window_def)
      then show ?thesis by (simp add: top_def bot_def shape1_pattern_window)
    qed
    then have "concatenate_axis0 top bot = Inr (top @ bot)"
      by (auto simp add: concatenate_axis0_def)
    moreover have "top @ bot = pattern_window a xoff yoff (sum_list ws) (h + sum_list hs)"
      unfolding top_def bot_def
      by (rule pattern_window_vsplit[OF h sum_list_nonneg_int[OF rest]])
    ultimately show ?thesis
      by (simp add: both_then_def top_def bot_def)
  qed
  finally show ?case by simp
qed


subsection \<open>The shape of the tiled array and of the slice\<close>

lemma rectangular_pattern_window: "rectangular (pattern_window a xoff yoff w h)"
proof (cases "0 < h")
  case True
  have "length r = nat w" if "r \<in> set (pattern_window a xoff yoff w h)" for r
    using that by (auto simp add: pattern_window_def)
  then show ?thesis
    using True by (simp add: rectangular_def shape1_pattern_window)
next
  case False
  then show ?thesis by (simp add: rectangular_def pattern_window_def)
qed

lemma numpy_tile_shape:
  assumes rect: "rectangular a" and H: "0 < shape0 a" and ry: "0 < ry" and rx: "0 \<le> rx"
  shows "\<exists>tiled. numpy_tile a ry rx = Inr tiled \<and> rectangular tiled \<and>
           int (shape0 tiled) = ry * int (shape0 a) \<and>
           int (shape1 tiled) = rx * int (shape1 a)"
proof -
  define rows where "rows = map (\<lambda>row. concat (replicate (nat rx) row)) a"
  define tiled where "tiled = concat (replicate (nat ry) rows)"
  have tile: "numpy_tile a ry rx = Inr tiled"
    using ry rx by (simp add: numpy_tile_def rows_def tiled_def)
  have row_len: "length r = nat rx * shape1 a" if "r \<in> set rows" for r
    using that rect by (auto simp add: rows_def rectangular_def length_concat_replicate)
  have set_tiled: "set tiled = set rows"
    using ry by (cases "nat ry") (auto simp add: tiled_def)
  have "rows \<noteq> []" using H by (auto simp add: rows_def shape0_def)
  then have "tiled \<noteq> []" using set_tiled by auto
  then have s1: "shape1 tiled = nat rx * shape1 a"
    using row_len set_tiled by (cases tiled) (auto simp add: shape1_def)
  have rt: "rectangular tiled"
    using row_len set_tiled s1 by (simp add: rectangular_def)
  have s0: "shape0 tiled = nat ry * shape0 a"
    by (simp add: shape0_def tiled_def rows_def length_concat_replicate)
  have "int (shape0 tiled) = ry * int (shape0 a)" using s0 ry by simp
  moreover have "int (shape1 tiled) = rx * int (shape1 a)" using s1 rx by simp
  ultimately show ?thesis using tile rt by blast
qed


text \<open>
  Claim C10. In the wallpaper loop, for a window with offsets \<open>xoff, yoff \<ge> 0\<close> and
  positive sizes and a pattern array that is not empty, the repeat counts
  \<open>1 + ((phase + window size) // dimension)\<close> make the tiled array at least
  \<open>phase + window size\<close> long on each axis, so the slice
  \<open>[phase : phase + window size]\<close> lies within it, and the array cut out has exactly the
  window's shape \<open>(win_ysize, win_xsize)\<close>. No exception is raised on the way.
\<close>

theorem wallpaper_slice_in_bounds:
  fixes wallpaper_array :: "'a array2d"
  assumes rect: "rectangular wallpaper_array"
    and H: "0 < shape0 wallpaper_array" and W: "0 < shape1 wallpaper_array"
    and off: "0 \<le> xoff" "0 \<le> yoff"
    and win: "0 < win_xsize" "0 < win_ysize"
  shows
    "let wallpaper_x = wallpaper_phase xoff (shape1 wallpaper_array);
         wallpaper_y = wallpaper_phase yoff (shape0 wallpaper_array);
         wallpaper_x_repeats = wallpaper_repeats wallpaper_x win_xsize (shape1 wallpaper_array);
         wallpaper_y_repeats = wallpaper_repeats wallpaper_y win_ysize (shape0 wallpaper_array)
     in \<exists>tiled out.
          numpy_tile wallpaper_array wallpaper_y_repeats wallpaper_x_repeats = Inr tiled
        \<and> rectangular tiled
        \<and> 0 \<le> wallpaper_x \<and> wallpaper_x + win_xsize \<le> int (shape1 tiled)
        \<and> 0 \<le> wallpaper_y \<and> wallpaper_y + win_ysize \<le> int (shape0 tiled)
        \<and> wallpaper_tiled wallpaper_array xoff yoff win_xsize win_ysize = Inr out
        \<and> rectangular out
        \<and> array_shape out = (nat win_ysize, nat win_xsize)"
proof -
  define px where "px = wallpaper_phase xoff (shape1 wallpaper_array)"
  define py where "py = wallpaper_phase yoff (shape0 wallpaper_array)"
  define rx where "rx = wallpaper_repeats px win_xsize (shape1 wallpaper_array)"
  define ry where "ry = wallpaper_repeats py win_ysize (shape0 wallpaper_array)"
  have px0: "0 \<le> px" and py0: "0 \<le> py"
    using phase_range(1)[OF W] phase_range(1)[OF H] by (simp_all add: px_def py_def)
  have rx0: "0 < rx" and ry0: "0 < ry"
    using repeats_nonneg[OF W px0, of win_xsize] repeats_nonneg[OF H py0, of win_ysize] win
    by (simp_all add: rx_def ry_def)
  obtain tiled where tile: "numpy_tile wallpaper_array ry rx = Inr tiled"
    and rt: "rectangular tiled"
    and s0: "int (shape0 tiled) = ry * int (shape0 wallpaper_array)"
    and s1: "int (shape1 tiled) = rx * int (shape1 wallpaper_array)"
    using numpy_tile_shape[OF rect H ry0, of rx] rx0 by auto
  have cx: "px + win_xsize \<le> int (shape1 tiled)"
    using repeats_cover[OF W, of px win_xsize] by (simp add: s1 rx_def mult.commute)
  have cy: "py + win_ysize \<le> int (shape0 tiled)"
    using repeats_cover[OF H, of py win_ysize] by (simp add: s0 ry_def mult.commute)
  define out where "out = pattern_window wallpaper_array xoff yoff win_xsize win_ysize"
  have res: "wallpaper_tiled wallpaper_array xoff yoff win_xsize win_ysize = Inr out"
    using wallpaper_tiled_eq[OF rect H W, of win_xsize win_ysize xoff yoff] win
    by (simp add: out_def)
  have ro: "rectangular out" by (simp add: out_def rectangular_pattern_window)
  have so: "array_shape out = (nat win_ysize, nat win_xsize)"
    using win by (simp add: array_shape_def out_def shape0_pattern_window shape1_pattern_window)
  show ?thesis
    unfolding Let_def px_def[symmetric] py_def[symmetric] rx_def[symmetric] ry_def[symmetric]
    using tile rt px0 cx py0 cy res ro so by blast
qed


text \<open>The same at a pattern of two rows and three columns, and a window of three by five.\<close>

theorem wallpaper_slice_in_bounds_witness:
  "rectangular [[1, 2, 3], [4, 5, 6 :: int]]
   \<and> 0 < shape0 [[1, 2, 3], [4, 5, 6 :: int]] \<and> 0 < shape1 [[1, 2, 3], [4, 5, 6 :: int]]
   \<and> (0::int) \<le> 4 \<and> (0::int) \<le> 1 \<and> (0::int) < 5 \<and> (0::int) < 3
   \<and> (\<exists>tiled out.
          numpy_tile [[1, 2, 3], [4, 5, 6 :: int]] 3 3 = Inr tiled
        \<and> rectangular tiled
        \<and> 1 + 5 \<le> int (shape1 tiled)
        \<and> 1 + 3 \<le> int (shape0 tiled)
        \<and> wallpaper_tiled [[1, 2, 3], [4, 5, 6 :: int]] 4 1 5 3 = Inr out
        \<and> rectangular out
        \<and> array_shape out = (3, 5))"
proof -
  have r: "rectangular [[1, 2, 3], [4, 5, 6 :: int]]"
    by (simp add: rectangular_def shape1_def)
  have s0: "shape0 [[1, 2, 3], [4, 5, 6 :: int]] = 2" by (simp add: shape0_def)
  have s1: "shape1 [[1, 2, 3], [4, 5, 6 :: int]] = 3" by (simp add: shape1_def)
  have h: "0 < shape0 [[1, 2, 3], [4, 5, 6 :: int]]" by (simp add: s0)
  have w: "0 < shape1 [[1, 2, 3], [4, 5, 6 :: int]]" by (simp add: s1)
  have px: "wallpaper_phase 4 3 = 1" and py: "wallpaper_phase 1 2 = 1"
    by (simp_all add: wallpaper_phase_def)
  have rx: "wallpaper_repeats 1 5 3 = 3" and ry: "wallpaper_repeats 1 3 2 = 3"
    by (simp_all add: wallpaper_repeats_def)
  have "\<exists>tiled out.
          numpy_tile [[1, 2, 3], [4, 5, 6 :: int]] 3 3 = Inr tiled
        \<and> rectangular tiled
        \<and> 0 \<le> (1::int) \<and> 1 + 5 \<le> int (shape1 tiled)
        \<and> 0 \<le> (1::int) \<and> 1 + 3 \<le> int (shape0 tiled)
        \<and> wallpaper_tiled [[1, 2, 3], [4, 5, 6 :: int]] 4 1 5 3 = Inr out
        \<and> rectangular out
        \<and> array_shape out = (nat 3, nat 5)"
    using wallpaper_slice_in_bounds[OF r h w, of 4 1 5 3]
    unfolding s0 s1 px py rx ry Let_def by simp
  then show ?thesis using r h w by simp
qed

subsection \<open>An empty pattern\<close>

lemma wallpaper_tiled_empty:
  "shape1 a = 0 \<or> shape0 a = 0 \<Longrightarrow>
   wallpaper_tiled a xoff yoff w h = Inl ZeroDivisionError"
  by (auto simp add: wallpaper_tiled_def)

lemma tile_block_row_empty:
  assumes "shape1 a = 0 \<or> shape0 a = 0"
  shows "ws \<noteq> [] \<Longrightarrow> tile_block_row a xoff yoff ws h = Inl ZeroDivisionError"
proof (induction ws arbitrary: xoff rule: list_nonempty_induct)
  case (single w)
  show ?case by (simp add: wallpaper_tiled_empty[OF assms])
next
  case (cons w ws)
  obtain v vs where ws: "ws = v # vs" using cons.hyps by (cases ws) auto
  show ?case
    by (simp add: ws wallpaper_tiled_empty[OF assms] both_then_def)
qed

lemma tile_blocks_empty:
  assumes "shape1 a = 0 \<or> shape0 a = 0" and "ws \<noteq> []"
  shows "hs \<noteq> [] \<Longrightarrow> tile_blocks a xoff yoff ws hs = Inl ZeroDivisionError"
proof (induction hs arbitrary: yoff rule: list_nonempty_induct)
  case (single h)
  show ?case by (simp add: tile_block_row_empty[OF assms])
next
  case (cons h hs)
  obtain v vs where hs: "hs = v # vs" using cons.hyps by (cases hs) auto
  show ?case
    by (simp add: hs tile_block_row_empty[OF assms] both_then_def)
qed

subsection \<open>Block invariance\<close>

text \<open>
  Claim C1. Wallpaper tiling does not depend on how the window is cut into blocks. For
  every pattern array and every window cut into a grid of blocks (columns of widths
  \<open>ws\<close>, rows of heights \<open>hs\<close>), tiling every block from its absolute offset (phase =
  offset mod pattern size, the pattern repeated, the slice cut out) and concatenating
  the blocks gives what tiling the whole window in one pass gives. In particular a
  window cut into two adjacent blocks, side by side or one above the other, gives the
  same array as the window tiled at once. For a pattern that is not empty the common
  value is the pattern continued periodically from the window's absolute offset; for an
  empty pattern both ways raise ZeroDivisionError.
\<close>

theorem wallpaper_block_invariance:
  fixes a :: "'a array2d"
  assumes rect: "rectangular a"
    and ws: "ws \<noteq> []" "\<forall>w \<in> set ws. 0 \<le> w"
    and hs: "hs \<noteq> []" "\<forall>h \<in> set hs. 0 \<le> h"
    and two: "0 \<le> w1" "0 \<le> w2" "0 \<le> h1" "0 \<le> h2"
  shows
    "tile_blocks a xoff yoff ws hs =
       wallpaper_tiled a xoff yoff (sum_list ws) (sum_list hs)
     \<and> both_then concatenate_axis1
         (wallpaper_tiled a xoff yoff w1 h1)
         (wallpaper_tiled a (xoff + w1) yoff w2 h1) =
       wallpaper_tiled a xoff yoff (w1 + w2) h1
     \<and> both_then concatenate_axis0
         (wallpaper_tiled a xoff yoff w1 h1)
         (wallpaper_tiled a xoff (yoff + h1) w1 h2) =
       wallpaper_tiled a xoff yoff w1 (h1 + h2)
     \<and> (0 < shape0 a \<and> 0 < shape1 a \<longrightarrow>
          wallpaper_tiled a xoff yoff (sum_list ws) (sum_list hs) =
            Inr (pattern_window a xoff yoff (sum_list ws) (sum_list hs)))"
proof (cases "0 < shape0 a \<and> 0 < shape1 a")
  case False
  then have e: "shape1 a = 0 \<or> shape0 a = 0" by auto
  show ?thesis
    using tile_blocks_empty[OF e ws(1) hs(1)] False
    by (simp add: wallpaper_tiled_empty[OF e] both_then_def)
next
  case True
  then have H: "0 < shape0 a" and W: "0 < shape1 a" by simp_all
  show ?thesis
  proof (intro conjI)
    have "0 \<le> sum_list ws" "0 \<le> sum_list hs"
      using ws(2) hs(2) by (simp_all add: sum_list_nonneg_int)
    then show "tile_blocks a xoff yoff ws hs =
          wallpaper_tiled a xoff yoff (sum_list ws) (sum_list hs)"
      using tile_blocks_eq[OF rect H W ws hs, of xoff yoff]
      by (simp add: wallpaper_tiled_eq[OF rect H W])
  next
    have "tile_blocks a xoff yoff [w1, w2] [h1] =
          Inr (pattern_window a xoff yoff (sum_list [w1, w2]) (sum_list [h1]))"
      using two by (intro tile_blocks_eq[OF rect H W]) simp_all
    then show "both_then concatenate_axis1
           (wallpaper_tiled a xoff yoff w1 h1)
           (wallpaper_tiled a (xoff + w1) yoff w2 h1) =
         wallpaper_tiled a xoff yoff (w1 + w2) h1"
      using two by (simp add: wallpaper_tiled_eq[OF rect H W, of "w1 + w2"])
  next
    have "tile_blocks a xoff yoff [w1] [h1, h2] =
          Inr (pattern_window a xoff yoff (sum_list [w1]) (sum_list [h1, h2]))"
      using two by (intro tile_blocks_eq[OF rect H W]) simp_all
    then show "both_then concatenate_axis0
           (wallpaper_tiled a xoff yoff w1 h1)
           (wallpaper_tiled a xoff (yoff + h1) w1 h2) =
         wallpaper_tiled a xoff yoff w1 (h1 + h2)"
      using two by (simp add: wallpaper_tiled_eq[OF rect H W, of w1 "h1 + h2"])
  next
    have "0 \<le> sum_list ws" "0 \<le> sum_list hs"
      using ws(2) hs(2) by (simp_all add: sum_list_nonneg_int)
    then show "0 < shape0 a \<and> 0 < shape1 a \<longrightarrow>
          wallpaper_tiled a xoff yoff (sum_list ws) (sum_list hs) =
            Inr (pattern_window a xoff yoff (sum_list ws) (sum_list hs))"
      by (simp add: wallpaper_tiled_eq[OF rect H W])
  qed
qed

text \<open>
  The same for a window of three rows and five columns at offset \<open>(4, 1)\<close>, cut into
  columns of widths 2 and 3 and rows of heights 1 and 2.
\<close>

theorem wallpaper_block_invariance_witness:
  "rectangular [[1, 2, 3], [4, 5, 6 :: int]]
   \<and> 0 < shape0 [[1, 2, 3], [4, 5, 6 :: int]] \<and> 0 < shape1 [[1, 2, 3], [4, 5, 6 :: int]]
   \<and> [2, 3 :: int] \<noteq> [] \<and> [1, 2 :: int] \<noteq> []
   \<and> (0::int) \<le> 2 \<and> (0::int) \<le> 3 \<and> (0::int) \<le> 1
   \<and> tile_blocks [[1, 2, 3], [4, 5, 6 :: int]] 4 1 [2, 3] [1, 2] =
       wallpaper_tiled [[1, 2, 3], [4, 5, 6 :: int]] 4 1 5 3
   \<and> both_then concatenate_axis1
         (wallpaper_tiled [[1, 2, 3], [4, 5, 6 :: int]] 4 1 2 1)
         (wallpaper_tiled [[1, 2, 3], [4, 5, 6 :: int]] 6 1 3 1) =
       wallpaper_tiled [[1, 2, 3], [4, 5, 6 :: int]] 4 1 5 1
   \<and> both_then concatenate_axis0
         (wallpaper_tiled [[1, 2, 3], [4, 5, 6 :: int]] 4 1 2 1)
         (wallpaper_tiled [[1, 2, 3], [4, 5, 6 :: int]] 4 2 2 2) =
       wallpaper_tiled [[1, 2, 3], [4, 5, 6 :: int]] 4 1 2 3"
proof -
  have r: "rectangular [[1, 2, 3], [4, 5, 6 :: int]]"
    by (simp add: rectangular_def shape1_def)
  have h: "0 < shape0 [[1, 2, 3], [4, 5, 6 :: int]]" by (simp add: shape0_def)
  have w: "0 < shape1 [[1, 2, 3], [4, 5, 6 :: int]]" by (simp add: shape1_def)
  have ws: "[2, 3 :: int] \<noteq> []" "\<forall>w \<in> set [2, 3 :: int]. 0 \<le> w" by simp_all
  have hs: "[1, 2 :: int] \<noteq> []" "\<forall>h \<in> set [1, 2 :: int]. 0 \<le> h" by simp_all
  have two: "(0::int) \<le> 2" "(0::int) \<le> 3" "(0::int) \<le> 1" by simp_all
  show ?thesis
    using wallpaper_block_invariance[OF r ws hs two(1) two(2) two(3) two(1), of 4 1]
      r h w
    by (simp del: tile_blocks.simps tile_block_row.simps)
qed

lemma wallpaper_block_eq:
  assumes "rectangular wallpaper_array" "0 < shape0 wallpaper_array"
    "0 < shape1 wallpaper_array"
  shows "wallpaper_block wallpaper_array parcel_mask_array base_array xoff yoff =
         Inr (numpy_where_eq1 parcel_mask_array
                (pattern_window wallpaper_array xoff yoff
                   (int (shape1 base_array)) (int (shape0 base_array)))
                base_array)"
  by (simp add: wallpaper_block_def wallpaper_tiled_eq[OF assms])

section \<open>Proofs: pixel counts under a parcel\<close>

lemma length_concat_rectangular:
  assumes "rectangular a"
  shows "length (concat a) = shape0 a * shape1 a"
proof -
  have "map length a = map (\<lambda>_. shape1 a) a"
    using assms by (simp add: rectangular_def)
  then have "sum_list (map length a) = sum_list (map (\<lambda>_. shape1 a) a)"
    by (rule arg_cong)
  also have "\<dots> = length a * shape1 a"
    by (simp add: sum_list_triv)
  finally show ?thesis by (simp add: length_concat shape0_def)
qed

lemma length_filter_mask:
  "length xs = length ms \<Longrightarrow>
   length (filter (\<lambda>(v, m). m = (1::int)) (zip xs ms)) = count_list ms 1"
  by (induction xs ms rule: list_induct2) auto

lemma length_boolean_index_eq1:
  assumes "rectangular array" "rectangular parcel_mask"
    and "array_shape parcel_mask = array_shape array"
  shows "length (boolean_index_eq1 array parcel_mask) = count_pixels parcel_mask 1"
proof -
  have "length (concat array) = length (concat parcel_mask)"
    using assms by (simp add: length_concat_rectangular array_shape_def)
  then show ?thesis
    by (simp add: boolean_index_eq1_def count_pixels_def length_filter_mask)
qed

lemma update_fresh_key:
  "k \<notin> fst ` set al \<Longrightarrow> AList.update k v al = al @ [(k, v)]"
  by (induction al) auto

lemma fold_update_distinct:
  "distinct ks \<Longrightarrow> set ks \<inter> fst ` set al = {} \<Longrightarrow>
   fold (\<lambda>(k, v) d. AList.update k v d) (zip ks vs) al = al @ zip ks vs"
proof (induction ks arbitrary: vs al)
  case Nil
  then show ?case by simp
next
  case (Cons k ks)
  show ?case
  proof (cases vs)
    case Nil
    then show ?thesis by simp
  next
    case (Cons v vs')
    have fresh: "k \<notin> fst ` set al" using Cons.prems(2) by auto
    have "set ks \<inter> fst ` set (al @ [(k, v)]) = {}"
      using Cons.prems by auto
    with Cons.IH[of "al @ [(k, v)]" vs'] Cons.prems(1)
    show ?thesis by (simp add: Cons update_fresh_key[OF fresh])
  qed
qed

lemma sum_counts_unique:
  "sum_list (map (count_list xs) (sort (remdups xs))) = length (xs :: int list)"
proof -
  have "sum_list (map (count_list xs) (sort (remdups xs))) =
        sum (count_list xs) (set (sort (remdups xs)))"
    by (rule sum_list_distinct_conv_sum_set) simp
  also have "\<dots> = length xs"
    by (simp add: sum_count_set)
  finally show ?thesis .
qed

lemma pixelcounts_value:
  assumes "array_shape parcel_mask = array_shape array"
  shows "pixelcounts_under_parcel array parcel_mask =
         Inr (map (\<lambda>c. (c, count_list (boolean_index_eq1 array parcel_mask) c))
                  (sort (remdups (boolean_index_eq1 array parcel_mask))))"
proof -
  define xs where "xs = boolean_index_eq1 array parcel_mask"
  have "fold (\<lambda>(k, v) d. AList.update k v d)
          (zip (sort (remdups xs)) (map (count_list xs) (sort (remdups xs)))) [] =
        [] @ zip (sort (remdups xs)) (map (count_list xs) (sort (remdups xs)))"
    by (rule fold_update_distinct) simp_all
  also have "\<dots> = map (\<lambda>c. (c, count_list xs c)) (sort (remdups xs))"
    by (simp add: zip_map2 zip_same_conv_map)
  finally show ?thesis
    using assms
    by (simp add: pixelcounts_under_parcel_def numpy_unique_counts_def Let_def xs_def)
qed

lemma pixelcounts_example:
  "pixelcounts_under_parcel [[1, 2, 3], [2, 2, 7]] [[1, 1, 0], [1, 1, 1]] =
     Inr [(1, 1), (2, 3), (7, 1)]"
  by (simp add: pixelcounts_under_parcel_def array_shape_def shape0_def shape1_def
      numpy_unique_counts_def boolean_index_eq1_def)

lemma pixels_where_rows:
  "pixels_where n_rows n_cols P =
   sum_list (map (\<lambda>i. length (filter (P i) [0..<n_cols])) [0..<n_rows])"
proof -
  have row: "length (filter (\<lambda>(i, j). P i j) (map (Pair i) [0..<n_cols])) =
             length (filter (P i) [0..<n_cols])" for i
    by (simp add: filter_map comp_def)
  show ?thesis
    unfolding pixels_where_def List.product_concat_map
    by (simp add: filter_concat length_concat comp_def row)
qed

lemma zip_conv_nth:
  "length xs = length ys \<Longrightarrow> zip xs ys = map (\<lambda>j. (xs ! j, ys ! j)) [0..<length xs]"
  by (rule nth_equalityI) auto

lemma count_pairs_under_mask:
  "length r = length mr \<Longrightarrow>
   count_list (map fst (filter (\<lambda>(v, m). m = (1::int)) (zip r mr))) c =
   length (filter (\<lambda>(v, m). m = 1 \<and> v = c) (zip r mr))"
  by (induction r mr rule: list_induct2) auto

lemma filter_index_pairs:
  "filter (\<lambda>(v, m). Q v m) (map (\<lambda>j. (f j, g j)) js) =
   map (\<lambda>j. (f j, g j)) (filter (\<lambda>j. Q (f j) (g j)) js)"
  by (induction js) auto

lemma row_count_under_mask:
  assumes "length r = length mr"
  shows "count_list (map fst (filter (\<lambda>(v, m). m = (1::int)) (zip r mr))) c =
         length (filter (\<lambda>j. mr ! j = 1 \<and> r ! j = c) [0..<length r])"
proof -
  have "count_list (map fst (filter (\<lambda>(v, m). m = 1) (zip r mr))) c =
        length (filter (\<lambda>(v, m). m = 1 \<and> v = c) (zip r mr))"
    by (rule count_pairs_under_mask[OF assms])
  also have "\<dots> = length (filter (\<lambda>(v, m). m = 1 \<and> v = c)
                       (map (\<lambda>j. (r ! j, mr ! j)) [0..<length r]))"
    by (simp only: zip_conv_nth[OF assms])
  also have "\<dots> = length (filter (\<lambda>j. mr ! j = 1 \<and> r ! j = c) [0..<length r])"
    by (simp only: filter_index_pairs length_map)
  finally show ?thesis .
qed

lemma count_list_conv_nth:
  "count_list xs v = length (filter (\<lambda>j. xs ! j = v) [0..<length xs])"
proof (induction xs rule: rev_induct)
  case Nil
  show ?case by simp
next
  case (snoc x xs)
  have "filter (\<lambda>j. (xs @ [x]) ! j = v) [0..<length xs] =
        filter (\<lambda>j. xs ! j = v) [0..<length xs]"
    by (rule filter_cong) (simp_all add: nth_append)
  then show ?case using snoc.IH by (simp add: nth_append)
qed

lemma boolean_index_eq1_snoc:
  assumes "length (concat rs) = length (concat mrs)"
  shows "boolean_index_eq1 (rs @ [r]) (mrs @ [mr]) =
         boolean_index_eq1 rs mrs @ map fst (filter (\<lambda>(v, m). m = 1) (zip r mr))"
  using assms by (simp add: boolean_index_eq1_def)

lemma length_concat_same_rows:
  "list_all2 (\<lambda>r s. length r = length s \<and> length r = w) a m \<Longrightarrow>
   length (concat a) = length (concat m)"
  by (induction a m rule: list_all2_induct) auto

lemma count_boolean_index_rows:
  "list_all2 (\<lambda>r s. length r = length s \<and> length r = w) array parcel_mask \<Longrightarrow>
   count_list (boolean_index_eq1 array parcel_mask) c =
   sum_list (map (\<lambda>i. length (filter
                (\<lambda>j. parcel_mask ! i ! j = 1 \<and> array ! i ! j = c) [0..<w]))
             [0..<length array])"
proof (induction array parcel_mask rule: rev_induct2)
  case 1
  show ?case by (simp add: boolean_index_eq1_def)
next
  case (2 x xs)
  then show ?case by simp
next
  case (3 y ys)
  then show ?case by simp
next
  case (4 r rs mr mrs)
  have len: "length rs = length mrs"
    using list_all2_lengthD[OF "4.prems"] by simp
  from "4.prems" len
  have rest: "list_all2 (\<lambda>r s. length r = length s \<and> length r = w) rs mrs"
    and last: "length r = length mr" "length r = w"
    by (simp_all add: list_all2_append)
  have bi: "boolean_index_eq1 (rs @ [r]) (mrs @ [mr]) =
            boolean_index_eq1 rs mrs @ map fst (filter (\<lambda>(v, m). m = 1) (zip r mr))"
    by (rule boolean_index_eq1_snoc[OF length_concat_same_rows[OF rest]])
  have same: "map (\<lambda>i. length (filter
                      (\<lambda>j. (mrs @ [mr]) ! i ! j = 1 \<and> (rs @ [r]) ! i ! j = c) [0..<w]))
                   [0..<length rs] =
              map (\<lambda>i. length (filter
                      (\<lambda>j. mrs ! i ! j = 1 \<and> rs ! i ! j = c) [0..<w]))
                   [0..<length rs]"
    by (rule map_cong[OF refl]) (simp add: nth_append len)
  have idx1: "(rs @ [r]) ! length rs = r" by simp
  have idx2: "(mrs @ [mr]) ! length rs = mr" by (simp add: len)
  note idx = idx1 idx2
  have lastrow: "length (filter (\<lambda>j. mr ! j = 1 \<and> r ! j = c) [0..<w]) =
                 count_list (map fst (filter (\<lambda>(v, m). m = 1) (zip r mr))) c"
    using row_count_under_mask[OF last(1), of c] last(2) by simp
  have "count_list (boolean_index_eq1 (rs @ [r]) (mrs @ [mr])) c =
        count_list (boolean_index_eq1 rs mrs) c +
        count_list (map fst (filter (\<lambda>(v, m). m = 1) (zip r mr))) c"
    by (simp only: bi count_list_append)
  also have "\<dots> = sum_list (map (\<lambda>i. length (filter
                      (\<lambda>j. mrs ! i ! j = 1 \<and> rs ! i ! j = c) [0..<w]))
                   [0..<length rs]) +
        count_list (map fst (filter (\<lambda>(v, m). m = 1) (zip r mr))) c"
    by (simp only: "4.IH"[OF rest])
  also have "\<dots> = sum_list (map (\<lambda>i. length (filter
                      (\<lambda>j. (mrs @ [mr]) ! i ! j = 1 \<and> (rs @ [r]) ! i ! j = c) [0..<w]))
                   [0..<length (rs @ [r])])"
    by (simp add: same idx lastrow)
  finally show ?case .
qed

lemma count_concat_rows:
  "\<forall>r \<in> set m. length r = w \<Longrightarrow>
   count_list (concat m) v =
   sum_list (map (\<lambda>i. length (filter (\<lambda>j. m ! i ! j = v) [0..<w])) [0..<length m])"
proof (induction m rule: rev_induct)
  case Nil
  show ?case by simp
next
  case (snoc r rs)
  have same: "map (\<lambda>i. length (filter (\<lambda>j. (rs @ [r]) ! i ! j = v) [0..<w])) [0..<length rs] =
              map (\<lambda>i. length (filter (\<lambda>j. rs ! i ! j = v) [0..<w])) [0..<length rs]"
    by (rule map_cong[OF refl]) (simp add: nth_append)
  have lastrow: "count_list r v = length (filter (\<lambda>j. r ! j = v) [0..<w])"
    using count_list_conv_nth[of r v] snoc.prems by simp
  have "count_list (concat (rs @ [r])) v = count_list (concat rs) v + count_list r v"
    by simp
  also have "\<dots> = sum_list (map (\<lambda>i. length (filter (\<lambda>j. rs ! i ! j = v) [0..<w]))
                        [0..<length rs]) + count_list r v"
    using snoc.IH snoc.prems by simp
  also have "\<dots> = sum_list (map (\<lambda>i. length (filter (\<lambda>j. (rs @ [r]) ! i ! j = v) [0..<w]))
                        [0..<length (rs @ [r])])"
    by (simp add: same lastrow)
  finally show ?case .
qed

lemma same_shape_rows_width:
  assumes "rectangular array" "rectangular parcel_mask"
    and "array_shape parcel_mask = array_shape array"
  shows "list_all2 (\<lambda>r s. length r = length s \<and> length r = shape1 array) array parcel_mask"
  using assms
  by (auto simp add: list_all2_conv_all_nth rectangular_def array_shape_def shape0_def)

lemma count_boolean_index_eq1:
  assumes rect: "rectangular array" "rectangular parcel_mask"
    and shape: "array_shape parcel_mask = array_shape array"
  shows "count_list (boolean_index_eq1 array parcel_mask) c =
         pixels_where (shape0 array) (shape1 array)
           (\<lambda>i j. parcel_mask ! i ! j = 1 \<and> array ! i ! j = c)"
  using count_boolean_index_rows[OF same_shape_rows_width[OF rect shape], of c]
  by (simp add: pixels_where_rows shape0_def)

lemma count_pixels_positions:
  assumes rect: "rectangular parcel_mask"
    and shape: "array_shape parcel_mask = array_shape array"
  shows "count_pixels parcel_mask v =
         pixels_where (shape0 array) (shape1 array) (\<lambda>i j. parcel_mask ! i ! j = v)"
proof -
  have "\<forall>r \<in> set parcel_mask. length r = shape1 array"
    using rect shape by (simp add: rectangular_def array_shape_def)
  from count_concat_rows[OF this, of v] shape show ?thesis
    by (simp add: count_pixels_def pixels_where_rows array_shape_def shape0_def)
qed

lemma map_of_keyed:
  "map_of (map (\<lambda>k. (k, f k)) ks) c = (if c \<in> set ks then Some (f c) else None)"
  by (induction ks) auto

text \<open>
  Claim C5. For every raster window and every all-touched mask of a polygon on it (two
  arrays of one shape), the pixel statistics map class codes to counts so that the
  counts add up to the number of pixels where the mask is 1, counted position by
  position. The count of a class code is the number of positions \<open>(i, j)\<close> where the
  mask is 1 and the window holds that class; a class code that holds no such position
  has no entry, so no entry has the count zero, and every class code is listed once.
\<close>

theorem pixelcounts_total:
  assumes rect: "rectangular array" "rectangular parcel_mask"
    and shape: "array_shape parcel_mask = array_shape array"
  shows "\<exists>return_values.
           pixelcounts_under_parcel array parcel_mask = Inr return_values
         \<and> sum_list (map snd return_values) = count_pixels parcel_mask 1
         \<and> count_pixels parcel_mask 1 =
             pixels_where (shape0 array) (shape1 array) (\<lambda>i j. parcel_mask ! i ! j = 1)
         \<and> distinct (map fst return_values)
         \<and> 0 \<notin> set (map snd return_values)
         \<and> (\<forall>c. map_of return_values c =
               (if pixels_where (shape0 array) (shape1 array)
                     (\<lambda>i j. parcel_mask ! i ! j = 1 \<and> array ! i ! j = c) = 0
                then None
                else Some (pixels_where (shape0 array) (shape1 array)
                             (\<lambda>i j. parcel_mask ! i ! j = 1 \<and> array ! i ! j = c))))"
proof -
  define xs where "xs = boolean_index_eq1 array parcel_mask"
  define rv where "rv = map (\<lambda>c. (c, count_list xs c)) (sort (remdups xs))"
  have val: "pixelcounts_under_parcel array parcel_mask = Inr rv"
    using pixelcounts_value[OF shape] by (simp add: rv_def xs_def)
  have keys: "map fst rv = sort (remdups xs)" by (simp add: rv_def comp_def)
  have vals: "map snd rv = map (count_list xs) (sort (remdups xs))"
    by (simp add: rv_def comp_def)
  have total: "sum_list (map snd rv) = count_pixels parcel_mask 1"
    using length_boolean_index_eq1[OF rect shape]
    by (simp add: vals sum_counts_unique xs_def)
  have positions: "count_pixels parcel_mask 1 =
        pixels_where (shape0 array) (shape1 array) (\<lambda>i j. parcel_mask ! i ! j = 1)"
    by (rule count_pixels_positions[OF rect(2) shape])
  have dist: "distinct (map fst rv)" by (simp add: keys)
  have nz: "0 \<notin> set (map snd rv)"
    by (auto simp add: vals count_list_0_iff)
  have cnt: "count_list xs c = pixels_where (shape0 array) (shape1 array)
                 (\<lambda>i j. parcel_mask ! i ! j = 1 \<and> array ! i ! j = c)" for c
    unfolding xs_def by (rule count_boolean_index_eq1[OF rect shape])
  have entry: "map_of rv c =
               (if pixels_where (shape0 array) (shape1 array)
                     (\<lambda>i j. parcel_mask ! i ! j = 1 \<and> array ! i ! j = c) = 0
                then None
                else Some (pixels_where (shape0 array) (shape1 array)
                             (\<lambda>i j. parcel_mask ! i ! j = 1 \<and> array ! i ! j = c)))" for c
  proof -
    have "map_of rv c = (if c \<in> set xs then Some (count_list xs c) else None)"
      unfolding rv_def by (simp add: map_of_keyed)
    also have "\<dots> = (if count_list xs c = 0 then None else Some (count_list xs c))"
      by (simp add: count_list_0_iff)
    finally show ?thesis by (simp only: cnt)
  qed
  show ?thesis
    using val total positions dist nz entry by blast
qed

text \<open>
  The same for a window of two rows and three columns with five pixels under the mask:
  class 2 lies at three positions under the mask, class 3 only at the position where
  the mask is 0.
\<close>

theorem pixelcounts_total_witness:
  "rectangular [[1, 2, 3], [2, 2, 7 :: int]] \<and> rectangular [[1, 1, 0], [1, 1, 1 :: int]]
   \<and> array_shape [[1, 1, 0], [1, 1, 1 :: int]] = array_shape [[1, 2, 3], [2, 2, 7 :: int]]
   \<and> pixelcounts_under_parcel [[1, 2, 3], [2, 2, 7]] [[1, 1, 0], [1, 1, 1]] =
       Inr [(1, 1), (2, 3), (7, 1)]
   \<and> sum_list (map snd [(1, 1), (2, 3), (7, 1 :: nat)]) =
       count_pixels [[1, 1, 0], [1, 1, 1]] 1
   \<and> count_pixels [[1, 1, 0], [1, 1, 1]] 1 =
       pixels_where 2 3 (\<lambda>i j. [[1, 1, 0], [1, 1, 1 :: int]] ! i ! j = 1)
   \<and> pixels_where 2 3 (\<lambda>i j. [[1, 1, 0], [1, 1, 1 :: int]] ! i ! j = 1
                            \<and> [[1, 2, 3], [2, 2, 7 :: int]] ! i ! j = 2) = 3
   \<and> pixels_where 2 3 (\<lambda>i j. [[1, 1, 0], [1, 1, 1 :: int]] ! i ! j = 1
                            \<and> [[1, 2, 3], [2, 2, 7 :: int]] ! i ! j = 3) = 0"
proof -
  have r1: "rectangular [[1, 2, 3], [2, 2, 7 :: int]]"
    by (simp add: rectangular_def shape1_def)
  have r2: "rectangular [[1, 1, 0], [1, 1, 1 :: int]]"
    by (simp add: rectangular_def shape1_def)
  have sh: "array_shape [[1, 1, 0], [1, 1, 1 :: int]] = array_shape [[1, 2, 3], [2, 2, 7 :: int]]"
    by (simp add: array_shape_def shape0_def shape1_def)
  have s0: "shape0 [[1, 2, 3], [2, 2, 7 :: int]] = 2" by (simp add: shape0_def)
  have s1: "shape1 [[1, 2, 3], [2, 2, 7 :: int]] = 3" by (simp add: shape1_def)
  have m2: "map_of [(1, 1), (2, 3), (7, 1 :: nat)] (2 :: int) = Some 3" by simp
  have m3: "map_of [(1, 1), (2, 3), (7, 1 :: nat)] (3 :: int) = None" by simp
  from pixelcounts_total[OF r1 r2 sh, unfolded pixelcounts_example s0 s1]
  have t: "sum_list (map snd [(1, 1), (2, 3), (7, 1 :: nat)]) =
             count_pixels [[1, 1, 0], [1, 1, 1]] 1"
    "count_pixels [[1, 1, 0], [1, 1, 1]] 1 =
       pixels_where 2 3 (\<lambda>i j. [[1, 1, 0], [1, 1, 1 :: int]] ! i ! j = 1)"
    "\<And>c. map_of [(1, 1), (2, 3), (7, 1 :: nat)] c =
       (if pixels_where 2 3 (\<lambda>i j. [[1, 1, 0], [1, 1, 1 :: int]] ! i ! j = 1
                                 \<and> [[1, 2, 3], [2, 2, 7 :: int]] ! i ! j = c) = 0
        then None
        else Some (pixels_where 2 3 (\<lambda>i j. [[1, 1, 0], [1, 1, 1 :: int]] ! i ! j = 1
                                 \<and> [[1, 2, 3], [2, 2, 7 :: int]] ! i ! j = c)))"
    by auto
  have c2: "pixels_where 2 3 (\<lambda>i j. [[1, 1, 0], [1, 1, 1 :: int]] ! i ! j = 1
                            \<and> [[1, 2, 3], [2, 2, 7 :: int]] ! i ! j = 2) = 3"
    using t(3)[of 2] unfolding m2 by (simp split: if_splits)
  have c3: "pixels_where 2 3 (\<lambda>i j. [[1, 1, 0], [1, 1, 1 :: int]] ! i ! j = 1
                            \<and> [[1, 2, 3], [2, 2, 7 :: int]] ! i ! j = 3) = 0"
    using t(3)[of 3] unfolding m3 by (simp split: if_splits)
  show ?thesis
    using r1 r2 sh pixelcounts_example t(1) t(2) c2 c3 by simp
qed

section \<open>Proofs: filling a parcel\<close>

lemma concat_rasterize_burn:
  "list_all2 (\<lambda>mrow vrow. length mrow = length vrow) touched raster \<Longrightarrow>
   concat (rasterize_burn touched burn raster) =
   map (\<lambda>(m, v). if m = 1 then burn else v) (zip (concat touched) (concat raster))"
  unfolding rasterize_burn_def
  by (induction touched raster rule: list_all2_induct) auto

lemma rectangular_same_shape_rows:
  assumes "rectangular a" "rectangular b" "array_shape a = array_shape b"
  shows "list_all2 (\<lambda>r s. length r = length s) a b"
  using assms
  by (auto simp add: list_all2_conv_all_nth rectangular_def array_shape_def shape0_def)

lemma count_burn:
  "length ms = length vs \<Longrightarrow>
   count_list (map (\<lambda>(m, v). if m = (1::int) then burn else v) (zip ms vs)) burn =
   count_list ms 1 + length (filter (\<lambda>(m, v). m \<noteq> 1 \<and> v = burn) (zip ms vs))"
  by (induction ms vs rule: list_induct2) auto

lemma fill_parcel_pixels_count:
  assumes "rectangular base_window" "rectangular touched"
    and "array_shape touched = array_shape base_window"
  shows "count_pixels (fill_parcel_pixels base_window nodata touched fill_lulc_class) fill_lulc_class =
         count_pixels touched 1 +
         length (filter (\<lambda>(m, v). m \<noteq> 1 \<and> v = fill_lulc_class)
                   (zip (concat touched) (concat base_window)))"
proof -
  have rows: "list_all2 (\<lambda>r s. length r = length s) touched base_window"
    by (rule rectangular_same_shape_rows[OF assms(2) assms(1) assms(3)])
  then have "length (concat touched) = length (concat base_window)"
    by (induction rule: list_all2_induct) auto
  then show ?thesis
    by (simp add: count_pixels_def fill_parcel_pixels_def create_new_lulc_pixels_def
        concat_rasterize_burn[OF rows] count_burn)
qed

text \<open>
  Claim C6, at a base window that already holds the fill class outside the parcel. The
  base window is \<open>[[15, 3]]\<close>, the parcel touches the second pixel only, and the fill
  class is 15: the output is \<open>[[15, 15]]\<close>, with two pixels of class 15 where the mask
  has one pixel equal to 1. (\<open>fill_parcel_pixels_count\<close> gives the count for every
  input: the pixels under the mask and the pixels of the base window outside the mask
  that hold the fill class already.)
\<close>

theorem fill_parcel_count_exceeds_mask:
  "fill_parcel_pixels [[15, 3]] (Some 0) [[0, 1]] 15 = [[15, 15]]
   \<and> count_pixels (fill_parcel_pixels [[15, 3]] (Some 0) [[0, 1]] 15) 15 = 2
   \<and> count_pixels [[0, 1]] 1 = 1"
  by (simp add: fill_parcel_pixels_def create_new_lulc_pixels_def rasterize_burn_def
      count_pixels_def)

section \<open>Proofs: the aligned extent\<close>

lemma py_fmod_pos:
  assumes "0 < y"
  shows "0 \<le> py_fmod x y" "py_fmod x y < y"
proof -
  have "of_int \<lfloor>x / y\<rfloor> * y \<le> x"
    by (subst pos_le_divide_eq[OF assms, symmetric]) (rule of_int_floor_le)
  then show "0 \<le> py_fmod x y" by (simp add: py_fmod_def mult.commute)
  have "x / y < of_int \<lfloor>x / y\<rfloor> + 1" by linarith
  then have "x < (of_int \<lfloor>x / y\<rfloor> + 1) * y"
    by (simp only: pos_divide_less_eq[OF assms])
  then show "py_fmod x y < y" by (simp add: py_fmod_def algebra_simps)
qed

lemma py_fmod_neg:
  assumes "y < 0"
  shows "py_fmod x y \<le> 0" "y < py_fmod x y"
proof -
  have "x \<le> of_int \<lfloor>x / y\<rfloor> * y"
    by (subst neg_le_divide_eq[OF assms, symmetric]) (rule of_int_floor_le)
  then show "py_fmod x y \<le> 0" by (simp add: py_fmod_def mult.commute)
  have "x / y < of_int \<lfloor>x / y\<rfloor> + 1" by linarith
  then have "(of_int \<lfloor>x / y\<rfloor> + 1) * y < x"
    by (simp only: neg_divide_less_eq[OF assms])
  then show "y < py_fmod x y" by (simp add: py_fmod_def algebra_simps)
qed

lemma align_bounds_three_edges:
  assumes "0 < PIXELSIZE_X g" "PIXELSIZE_Y g \<noteq> 0"
  shows "\<exists>aminx aminy amaxx amaxy.
           align_bounds g (minx, miny, maxx, maxy) = Inr (aminx, aminy, amaxx, amaxy)
         \<and> aminx \<le> minx \<and> aminy \<le> miny \<and> maxx < amaxx"
  using assms py_fmod_pos[OF assms(1), of "maxx - LULC_ORIGIN_X g"]
  by (simp add: align_bounds_def)

lemma align_bounds_max_y_negative_pixel:
  assumes "PIXELSIZE_X g \<noteq> 0" "PIXELSIZE_Y g < 0"
  shows "\<exists>aminx aminy amaxx amaxy.
           align_bounds g (minx, miny, maxx, maxy) = Inr (aminx, aminy, amaxx, amaxy)
         \<and> amaxy < maxy"
  using assms by (simp add: align_bounds_def)

lemma align_bounds_contains_positive_pixels:
  assumes "0 < PIXELSIZE_X g" "0 < PIXELSIZE_Y g"
  shows "\<exists>aligned. align_bounds g b = Inr aligned \<and> bbox_contains aligned b"
proof -
  obtain minx miny maxx maxy where b: "b = (minx, miny, maxx, maxy)"
    by (cases b) auto
  show ?thesis
    using assms py_fmod_pos[OF assms(1), of "maxx - LULC_ORIGIN_X g"]
      py_fmod_pos[OF assms(2), of "maxy - LULC_ORIGIN_Y g"]
    by (simp add: b align_bounds_def bbox_contains_def)
qed

lemma align_bounds_on_grid:
  assumes "PIXELSIZE_X g \<noteq> 0" "PIXELSIZE_Y g \<noteq> 0"
    and "bbox_on_grid g (minx, miny, maxx, maxy)"
  shows "align_bounds g (minx, miny, maxx, maxy) =
         Inr (minx, miny, maxx + PIXELSIZE_X g, maxy + PIXELSIZE_Y g)"
  using assms by (simp add: align_bounds_def bbox_on_grid_def on_grid_def)

text \<open>
  Claim C2, at a grid with the pixel sizes \<open>(10, -10)\<close> and its origin at \<open>(0, 0)\<close>, and
  a parcel with the bounding box \<open>(3, 3, 25, 25)\<close>. The buffered parcel reaches
  \<open>maxy = 1625\<close>; the target box computed from it ends at \<open>maxy = 1610\<close> and does not
  contain the buffered parcel's bounding box. (\<open>align_bounds_max_y_negative_pixel\<close>: with
  a negative y pixel size the computed \<open>maxy\<close> is below the box's \<open>maxy\<close> for every box;
  \<open>align_bounds_three_edges\<close>: the other three edges do contain the box;
  \<open>align_bounds_contains_positive_pixels\<close>: so do all four when both pixel sizes are
  positive.)
\<close>

theorem aligned_extent_cuts_max_y:
  "create_new_lulc_target_bb
     \<lparr>LULC_ORIGIN_X = 0, LULC_ORIGIN_Y = 0, PIXELSIZE_X = 10, PIXELSIZE_Y = - 10\<rparr>
     (3, 3, 25, 25) = Inr (- 1600, - 1604, 1630, 1610)
   \<and> geom_bounds (buffered_parcel_geom (3, 3, 25, 25)) = (- 1597, - 1597, 1625, 1625)
   \<and> \<not> bbox_contains (- 1600, - 1604, 1630, 1610)
         (geom_bounds (buffered_parcel_geom (3, 3, 25, 25)))"
  by (simp add: create_new_lulc_target_bb_def align_bounds_def buffered_parcel_geom_def
      shapely_buffer_def loads_box_wkt_def LARGEST_SERVICESHED_def py_fmod_def
      bbox_contains_def)

lemma create_new_lulc_on_grid_example:
  "geom_bounds (buffered_parcel_geom (1600, 1600, 1620, 1620)) = (0, 0, 3220, 3220)
   \<and> create_new_lulc_target_bb
       \<lparr>LULC_ORIGIN_X = 0, LULC_ORIGIN_Y = 0, PIXELSIZE_X = 10, PIXELSIZE_Y = - 10\<rparr>
       (1600, 1600, 1620, 1620) = Inr (0, 0, 3230, 3210)"
  by (simp add: create_new_lulc_target_bb_def align_bounds_def buffered_parcel_geom_def
      shapely_buffer_def loads_box_wkt_def LARGEST_SERVICESHED_def py_fmod_def)

text \<open>
  Claim C3, at the box \<open>(0, 0, 20, 20)\<close>, whose four edges lie on whole multiples of the
  pixel size from the origin \<open>(0, 0)\<close>. With the pixel sizes \<open>(10, -10)\<close> the edges are
  moved to \<open>(0, 0, 30, 10)\<close>, with \<open>(10, 10)\<close> to \<open>(0, 0, 30, 30)\<close>: the box is not
  returned as it is. (\<open>align_bounds_on_grid\<close>: for every box on the grid the two minimum
  edges stay and each maximum edge moves by one pixel size;
  \<open>create_new_lulc_on_grid_example\<close>: the parcel \<open>(1600, 1600, 1620, 1620)\<close>, whose
  buffered bounds \<open>(0, 0, 3220, 3220)\<close> lie on the grid, gets \<open>(0, 0, 3230, 3210)\<close>.)
\<close>

theorem align_bounds_not_idempotent:
  "bbox_on_grid
     \<lparr>LULC_ORIGIN_X = 0, LULC_ORIGIN_Y = 0, PIXELSIZE_X = 10, PIXELSIZE_Y = - 10\<rparr>
     (0, 0, 20, 20)
   \<and> align_bounds
       \<lparr>LULC_ORIGIN_X = 0, LULC_ORIGIN_Y = 0, PIXELSIZE_X = 10, PIXELSIZE_Y = - 10\<rparr>
       (0, 0, 20, 20) = Inr (0, 0, 30, 10)
   \<and> align_bounds
       \<lparr>LULC_ORIGIN_X = 0, LULC_ORIGIN_Y = 0, PIXELSIZE_X = 10, PIXELSIZE_Y = 10\<rparr>
       (0, 0, 20, 20) = Inr (0, 0, 30, 30)"
  by (simp add: bbox_on_grid_def on_grid_def align_bounds_def py_fmod_def)

section \<open>Proofs: the job loop\<close>

lemma job_body_unknown:
  assumes "job_type j \<notin> {JOBTYPE_FILL, JOBTYPE_WALLPAPER, JOBTYPE_CROP,
                          JOBTYPE_PARCEL_STATS, JOBTYPE_INVEST}"
  shows "job_body fails j = ([], Inl ValueError)"
  using assms by (simp add: job_body_def)

lemma job_payload_failed:
  "job_payload j (Inl e) =
     \<lparr>result = FailedResult, payload_server_attrs = server_attrs j, status = STATUS_FAILED\<rparr>"
  by (simp add: job_payload_def)

lemma process_job_unknown_endpoint:
  assumes "map_of ENDPOINTS (job_type j) = None"
  shows "process_job fails j = ([], Inl KeyError)"
proof -
  have "job_type j \<notin> fst ` set ENDPOINTS"
    using assms by (simp add: map_of_eq_None_iff)
  then have "job_type j \<notin> {JOBTYPE_FILL, JOBTYPE_WALLPAPER, JOBTYPE_CROP,
                          JOBTYPE_PARCEL_STATS, JOBTYPE_INVEST}"
    by (auto simp add: ENDPOINTS_def)
  then show ?thesis
    using assms by (simp add: process_job_def job_body_unknown)
qed

lemma process_job_pattern_thumbnail:
  assumes "job_type j = JOBTYPE_PATTERN_THUMBNAIL"
  shows "process_job fails j =
         ([], Inr (''pattern'',
            \<lparr>result = FailedResult, payload_server_attrs = server_attrs j,
             status = STATUS_FAILED\<rparr>))"
  using assms
  by (simp add: process_job_def job_body_def job_payload_def ENDPOINTS_def
      JOBTYPE_PATTERN_THUMBNAIL_def JOBTYPE_FILL_def JOBTYPE_WALLPAPER_def JOBTYPE_CROP_def
      JOBTYPE_PARCEL_STATS_def JOBTYPE_INVEST_def)

lemma process_job_missing_scenario_id:
  "process_job fails \<lparr>job_type = ''lulc_fill'', server_attrs = [], job_args = args\<rparr> =
     ([], Inr (''scenario'',
        \<lparr>result = FailedResult, payload_server_attrs = [], status = STATUS_FAILED\<rparr>))"
  by (simp add: process_job_def job_body_def job_payload_def scenario_steps_def ENDPOINTS_def
      JOBTYPE_FILL_def JOBTYPE_WALLPAPER_def JOBTYPE_CROP_def)

text \<open>
  Claim C4, at a job whose type \<open>bogus\<close> is not a key of \<open>ENDPOINTS\<close>. No operation is
  started and the \<^verbatim>\<open>try\<close> block raises ValueError; the payload built for it has the
  status \<open>failed\<close>; the endpoint lookup for the post then raises KeyError, which leaves
  the loop, and nothing is posted. (\<open>process_job_unknown_endpoint\<close>: the same for every
  job type that is not a key of \<open>ENDPOINTS\<close>.)
\<close>

theorem unknown_job_type_escapes:
  "job_body fails \<lparr>job_type = ''bogus'', server_attrs = attrs, job_args = args\<rparr> = ([], Inl ValueError)
   \<and> status (job_payload \<lparr>job_type = ''bogus'', server_attrs = attrs, job_args = args\<rparr> (Inl ValueError))
       = STATUS_FAILED
   \<and> map_of ENDPOINTS ''bogus'' = None
   \<and> process_job fails \<lparr>job_type = ''bogus'', server_attrs = attrs, job_args = args\<rparr> = ([], Inl KeyError)"
  by (simp add: process_job_def job_body_def job_payload_def ENDPOINTS_def
      JOBTYPE_PATTERN_THUMBNAIL_def JOBTYPE_FILL_def JOBTYPE_WALLPAPER_def JOBTYPE_CROP_def
      JOBTYPE_PARCEL_STATS_def JOBTYPE_INVEST_def)

section \<open>Proofs: working directories\<close>

















section \<open>Proofs: reprojection\<close>

text \<open>
  Claim C8, as amended. When the transform reports an error code, the function logs a
  warning and goes on. It raises (an AssertionError) exactly when the WKT after the
  transform is the WKT it was given, whatever the error code; otherwise it returns
  the geometry loaded from the new WKT.
\<close>

theorem reproject_raises_only_on_unchanged_wkt:
  assumes "create ogr parcel_wkt_epsg3857 = Some ogr_geom"
    and "transform ogr ogr_geom = (err_code, ogr_geom')"
  shows "snd (reproject_to_nlud ogr parcel_wkt_epsg3857) =
           (if export ogr ogr_geom' = parcel_wkt_epsg3857 then Inl AssertionError
            else case loads ogr (export ogr ogr_geom') of
                   None \<Rightarrow> Inl ExternalError
                 | Some parcel_geom \<Rightarrow> Inr parcel_geom)
         \<and> fst (reproject_to_nlud ogr parcel_wkt_epsg3857) =
           (if err_code = 0 then []
            else [''Transformation failed on parcel; continuing with '' @ parcel_wkt_epsg3857])"
  using assms by (simp add: reproject_to_nlud_def Let_def split: option.splits)

text \<open>
  The same for a transform that reports the error code 1 and changes the geometry, and
  for one that reports 0 and leaves it as it was.
\<close>

theorem reproject_raises_only_on_unchanged_wkt_witness:
  "snd (reproject_to_nlud
          \<lparr>create = Some, transform = (\<lambda>g. (1, g @ ''!'')), export = id, loads = Some\<rparr>
          ''POLYGON'') = Inr ''POLYGON!''
   \<and> fst (reproject_to_nlud
          \<lparr>create = Some, transform = (\<lambda>g. (1, g @ ''!'')), export = id, loads = Some\<rparr>
          ''POLYGON'') = [''Transformation failed on parcel; continuing with POLYGON'']
   \<and> snd (reproject_to_nlud
          \<lparr>create = Some, transform = (\<lambda>g. (0, g)), export = id, loads = Some\<rparr>
          ''POLYGON'') = (Inl AssertionError :: py_error + string)"
proof -
  let ?ogr1 = "\<lparr>create = Some, transform = (\<lambda>g. (1::int, g @ ''!'')), export = id,
                loads = (Some :: string \<Rightarrow> string option)\<rparr>"
  let ?ogr0 = "\<lparr>create = Some, transform = (\<lambda>g. (0::int, g)), export = id,
                loads = (Some :: string \<Rightarrow> string option)\<rparr>"
  have c1: "create ?ogr1 ''POLYGON'' = Some ''POLYGON''" by simp
  have t1: "transform ?ogr1 ''POLYGON'' = (1, ''POLYGON!'')" by simp
  have c0: "create ?ogr0 ''POLYGON'' = Some ''POLYGON''" by simp
  have t0: "transform ?ogr0 ''POLYGON'' = (0, ''POLYGON'')" by simp
  show ?thesis
    using reproject_raises_only_on_unchanged_wkt[OF c1 t1]
      reproject_raises_only_on_unchanged_wkt[OF c0 t0]
    by simp
qed

text \<open>
  Claim C8 as stated fails: a transform that reports the error code 1 and changes the
  geometry does not make the function raise; it returns the changed geometry.
\<close>

theorem reproject_continues_after_error_code:
  "reproject_to_nlud
     \<lparr>create = Some, transform = (\<lambda>g. (1, g @ ''!'')), export = id, loads = Some\<rparr>
     ''POLYGON''
   = ([''Transformation failed on parcel; continuing with POLYGON''], Inr ''POLYGON!'')"
  by (simp add: reproject_to_nlud_def)

end
